(* ===== verification/Prelude.thy ===== *)
theory Prelude
  imports Main "HOL-Library.Word" "HOL-Library.List_Lexorder"
begin

text \<open>
  Shared vocabulary of the development: machine integers and byte strings, errors as values,
  sequencing of fallible steps, readers over a finite byte source, little-endian numbers, and
  the two interfaces (\<open>codec\<close>, \<open>canonical_codec\<close>) that the wire formats are proved against.
  Go's \<open>[]byte\<close> is a list of 8-bit words; \<open>chainhash.Hash\<close> (a 32-byte array) is a byte list
  whose length is stated where it matters; \<open>uint32\<close> and \<open>uint64\<close> are words of that width;
  \<open>int64\<close> is an \<open>int\<close> with its range stated (\<open>is_int64\<close>).
\<close>

section \<open>Types\<close>

unbundle bit_operations_syntax

type_synonym byte = "8 word"
type_synonym bytes = "byte list"
type_synonym u16 = "16 word"
type_synonym u32 = "32 word"
type_synonym u64 = "64 word"
type_synonym hash = bytes

definition HashSize :: nat where
  [simp]: "HashSize = 32"

definition zeroHash :: hash where
  "zeroHash = replicate HashSize 0"

definition MaxUint32 :: nat where
  "MaxUint32 = 4294967295"

definition is_int64 :: "int \<Rightarrow> bool" where
  "is_int64 v \<longleftrightarrow> - (2 ^ 63) \<le> v \<and> v < 2 ^ 63"

text \<open>
  Errors carry the kind of the Go error and the fixed part of its message; numbers that a
  message interpolates are left out. \<open>Panic\<close> is a run-time panic (an index out of range).
\<close>

datatype error =
    EOF
  | UnexpectedEOF
  | MessageError string
  | RuleError string string
  | AssertError string
  | DeserializeError string
  | DatabaseError string string
  | OtherError string
  | Panic string

type_synonym 'a result = "error + 'a"
type_synonym 'a reader = "bytes \<Rightarrow> error + 'a \<times> bytes"

named_theorems codec_simps \<open>equations that evaluate encoders and decoders\<close>
named_theorems result_simps \<open>when a sequence of fallible steps succeeds\<close>

section \<open>Sequencing fallible steps\<close>

definition rbind :: "'e + 'a \<Rightarrow> ('a \<Rightarrow> 'e + 'b) \<Rightarrow> 'e + 'b" where
  "rbind m f = (case m of Inl e \<Rightarrow> Inl e | Inr x \<Rightarrow> f x)"

lemma rbind_simps [simp, code]:
  "rbind (Inl e) f = Inl e"
  "rbind (Inr x) f = f x"
  by (simp_all add: rbind_def)

lemma rbind_eq_Inr [result_simps]:
  "rbind m f = Inr y \<longleftrightarrow> (\<exists>x. m = Inr x \<and> f x = Inr y)"
  by (cases m) auto

lemma rbind_eq_Inl:
  "rbind m f = Inl e \<longleftrightarrow> m = Inl e \<or> (\<exists>x. m = Inr x \<and> f x = Inl e)"
  by (cases m) auto

lemma rbind_cong [fundef_cong]:
  "m = m' \<Longrightarrow> (\<And>x. m' = Inr x \<Longrightarrow> f x = f' x) \<Longrightarrow> rbind m f = rbind m' f'"
  by (cases m') auto

definition failIf :: "bool \<Rightarrow> 'e \<Rightarrow> 'e + unit" where
  "failIf c e = (if c then Inl e else Inr ())"

lemma failIf_simps [simp]:
  "failIf True e = Inl e"
  "failIf False e = Inr ()"
  by (simp_all add: failIf_def)

lemma failIf_eq_Inr [result_simps]: "failIf c e = Inr u \<longleftrightarrow> \<not> c"
  by (simp add: failIf_def)

lemma failIf_eq_Inl: "failIf c e = Inl e' \<longleftrightarrow> c \<and> e = e'"
  by (auto simp: failIf_def)

text \<open>A loop over a slice with its index, leaving at the first error.\<close>

fun for_each :: "(nat \<Rightarrow> 'a \<Rightarrow> 'e + unit) \<Rightarrow> nat \<Rightarrow> 'a list \<Rightarrow> 'e + unit" where
  "for_each f i [] = Inr ()"
| "for_each f i (x # xs) = rbind (f i x) (\<lambda>_. for_each f (Suc i) xs)"

lemma for_each_ok:
  "for_each f i xs = Inr u \<longleftrightarrow> (\<forall>j < length xs. f (i + j) (xs ! j) = Inr ())"
proof (induction xs arbitrary: i)
  case (Cons x xs)
  then show ?case
    by (auto simp: rbind_eq_Inr All_less_Suc2)
qed simp

lemma for_each_nthD: "for_each f 0 xs = Inr u \<Longrightarrow> j < length xs \<Longrightarrow> f j (xs ! j) = Inr ()"
  using for_each_ok [of f 0 xs u] by simp

text \<open>A slice expression \<open>bs[a:b]\<close> whose bounds are in range.\<close>

definition slice :: "'a list \<Rightarrow> nat \<Rightarrow> nat \<Rightarrow> 'a list" where
  "slice bs a b = take (b - a) (drop a bs)"

lemma length_slice [simp]: "b \<le> length bs \<Longrightarrow> length (slice bs a b) = b - a"
  by (simp add: slice_def)

section \<open>Readers\<close>

text \<open>
  \<open>io.ReadFull\<close> on a \<open>bytes.Reader\<close> or \<open>bytes.Buffer\<close>: the unread bytes are the state.
\<close>

definition ReadFull :: "nat \<Rightarrow> bytes reader" where
  "ReadFull n bs =
     (if n \<le> length bs then Inr (take n bs, drop n bs)
      else if bs = [] then Inl EOF else Inl UnexpectedEOF)"

lemma ReadFull_append [codec_simps]:
  "length xs = n \<Longrightarrow> ReadFull n (xs @ r) = Inr (xs, r)"
  by (simp add: ReadFull_def)

lemma ReadFull_one [simp]: "ReadFull (Suc 0) (b # r) = Inr ([b], r)"
  by (simp add: ReadFull_def)

lemma ReadFull_eq_Inr [result_simps]:
  "ReadFull n bs = Inr (xs, r) \<longleftrightarrow> length xs = n \<and> bs = xs @ r"
  by (auto simp: ReadFull_def)

fun read_many :: "'a reader \<Rightarrow> nat \<Rightarrow> 'a list reader" where
  "read_many rd 0 bs = Inr ([], bs)"
| "read_many rd (Suc n) bs =
     rbind (rd bs) (\<lambda>(x, r). rbind (read_many rd n r) (\<lambda>(xs, r'). Inr (x # xs, r')))"

fun write_many :: "('a \<Rightarrow> bytes result) \<Rightarrow> 'a list \<Rightarrow> bytes result" where
  "write_many wr [] = Inr []"
| "write_many wr (x # xs) =
     rbind (wr x) (\<lambda>b. rbind (write_many wr xs) (\<lambda>bs. Inr (b @ bs)))"

lemma write_many_total: "write_many (\<lambda>x. Inr (f x)) xs = Inr (concat (map f xs))"
  by (induction xs) auto

lemma read_many_length: "read_many rd n bs = Inr (xs, r) \<Longrightarrow> length xs = n"
  by (induction n arbitrary: bs xs r) (auto simp: result_simps)

section \<open>Little-endian numbers\<close>

lemma unat_less: "unat (w :: 'a::len word) < 2 ^ LENGTH('a)"
  by (rule unsigned_less)

lemma unat_byte: "unat (b :: byte) < 256"
  using unat_less [of b] by simp

primrec put_le :: "nat \<Rightarrow> nat \<Rightarrow> bytes" where
  "put_le 0 v = []"
| "put_le (Suc n) v = of_nat (v mod 256) # put_le n (v div 256)"

primrec get_le :: "bytes \<Rightarrow> nat" where
  "get_le [] = 0"
| "get_le (b # bs) = unat b + 256 * get_le bs"

lemma length_put_le [simp]: "length (put_le n v) = n"
  by (induction n arbitrary: v) auto

lemma get_le_put_le: "get_le (put_le n v) = v mod 256 ^ n"
proof (induction n arbitrary: v)
  case (Suc n)
  have "v mod (256 * 256 ^ n) = v mod 256 + 256 * (v div 256 mod 256 ^ n)"
    by (simp add: mod_mult2_eq)
  with Suc show ?case by (simp add: unat_of_nat)
qed simp

lemma get_le_bound: "get_le bs < 256 ^ length bs"
proof (induction bs)
  case (Cons b bs)
  have "unat b < 256" by (rule unat_byte)
  with Cons show ?case by simp
qed simp

lemma put_le_get_le: "put_le (length bs) (get_le bs) = bs"
proof (induction bs)
  case (Cons b bs)
  have "unat b < 256" by (rule unat_byte)
  with Cons show ?case by simp
qed simp

definition PutUint16 :: "u16 \<Rightarrow> bytes" where
  "PutUint16 w = put_le 2 (unat w)"

definition PutUint32 :: "u32 \<Rightarrow> bytes" where
  "PutUint32 w = put_le 4 (unat w)"

definition PutUint64 :: "u64 \<Rightarrow> bytes" where
  "PutUint64 w = put_le 8 (unat w)"

definition Uint16 :: "bytes \<Rightarrow> u16" where
  "Uint16 bs = of_nat (get_le bs)"

definition Uint32 :: "bytes \<Rightarrow> u32" where
  "Uint32 bs = of_nat (get_le bs)"

definition Uint64 :: "bytes \<Rightarrow> u64" where
  "Uint64 bs = of_nat (get_le bs)"

lemma length_PutUint [simp]:
  "length (PutUint16 a) = 2" "length (PutUint32 b) = 4" "length (PutUint64 c) = 8"
  by (simp_all add: PutUint16_def PutUint32_def PutUint64_def)

lemma Uint_PutUint [simp]:
  "Uint16 (PutUint16 a) = a" "Uint32 (PutUint32 b) = b" "Uint64 (PutUint64 c) = c"
  using unat_less [of a] unat_less [of b] unat_less [of c]
  by (simp_all add: Uint16_def PutUint16_def Uint32_def PutUint32_def Uint64_def PutUint64_def
      get_le_put_le)

lemma PutUint_Uint:
  "length xs = 2 \<Longrightarrow> PutUint16 (Uint16 xs) = xs"
  "length ys = 4 \<Longrightarrow> PutUint32 (Uint32 ys) = ys"
  "length zs = 8 \<Longrightarrow> PutUint64 (Uint64 zs) = zs"
  using get_le_bound [of xs] get_le_bound [of ys] get_le_bound [of zs]
    put_le_get_le [of xs] put_le_get_le [of ys] put_le_get_le [of zs]
  by (simp_all add: Uint16_def PutUint16_def Uint32_def PutUint32_def Uint64_def PutUint64_def
      unat_of_nat)

lemma unat_Uint:
  "length xs = 2 \<Longrightarrow> unat (Uint16 xs) = get_le xs"
  "length ys = 4 \<Longrightarrow> unat (Uint32 ys) = get_le ys"
  "length zs = 8 \<Longrightarrow> unat (Uint64 zs) = get_le zs"
  using get_le_bound [of xs] get_le_bound [of ys] get_le_bound [of zs]
  by (simp_all add: Uint16_def Uint32_def Uint64_def unat_of_nat)

section \<open>Interfaces of the wire formats\<close>

text \<open>
  A codec: what the encoder makes of a valid value, the decoder reads back and leaves the rest
  of the input alone. A canonical codec moreover accepts nothing but encodings of valid values.
\<close>

locale codec =
  fixes enc :: "'a \<Rightarrow> bytes result"
    and dec :: "'a reader"
    and valid :: "'a \<Rightarrow> bool"
  assumes dec_enc: "valid x \<Longrightarrow> enc x = Inr bs \<Longrightarrow> dec (bs @ r) = Inr (x, r)"
begin

lemma enc_inj:
  assumes "valid x" and "valid y" and "enc x = Inr bs" and "enc y = Inr bs"
  shows "x = y"
  using dec_enc [OF assms(1,3), of "[]"] dec_enc [OF assms(2,4), of "[]"] by simp

lemma enc_prefix_free:
  assumes "valid x" and "valid y" and "enc x = Inr bs" and "enc y = Inr cs" and "bs @ r = cs @ s"
  shows "x = y \<and> r = s"
  using dec_enc [OF assms(1,3), of r] dec_enc [OF assms(2,4), of s] assms(5) by simp

lemma read_write_many:
  "list_all valid xs \<Longrightarrow> write_many enc xs = Inr bs \<Longrightarrow>
    read_many dec (length xs) (bs @ r) = Inr (xs, r)"
  by (induction xs arbitrary: bs) (auto simp: result_simps dec_enc)

end

locale canonical_codec = codec +
  assumes enc_dec: "dec bs = Inr (x, r) \<Longrightarrow> valid x \<and> (\<exists>cs. enc x = Inr cs \<and> bs = cs @ r)"
begin

lemma dec_iff: "dec bs = Inr (x, r) \<longleftrightarrow> valid x \<and> (\<exists>cs. enc x = Inr cs \<and> bs = cs @ r)"
  using dec_enc enc_dec by blast

lemma write_read_many:
  "read_many dec n bs = Inr (xs, r) \<Longrightarrow>
    list_all valid xs \<and> (\<exists>cs. write_many enc xs = Inr cs \<and> bs = cs @ r)"
proof (induction n arbitrary: bs xs r)
  case (Suc n)
  then obtain x r1 xs' where x: "dec bs = Inr (x, r1)"
    and xs': "read_many dec n r1 = Inr (xs', r)" and xs: "xs = x # xs'"
    by (auto simp: result_simps)
  from enc_dec [OF x] Suc.IH [OF xs'] xs show ?case by auto
qed simp

end

end
