(* ===== verification/Wire_Codec.thy ===== *)
theory Wire_Codec
  imports Prelude
begin

text \<open>
  The primitives of package \<open>wire\<close> (src/wire/common.go): variable length integers, byte
  strings and strings, and the two Handshake output fields, the address (src/wire/address.go)
  and the covenant (src/wire/covenant.go). Readers are over a finite byte source, so
  \<open>readerRemaining\<close> is the number of unread bytes. Each format is shown to be a canonical codec:
  decoding undoes encoding, and only encodings are accepted.
\<close>

section \<open>Variable length integers\<close>

definition ReadVarInt :: "u64 reader" where
  "ReadVarInt bs =
     rbind (ReadFull 1 bs) (\<lambda>(b, r).
       let discriminant = hd b in
       if discriminant = 0xff then
         rbind (ReadFull 8 r) (\<lambda>(buf, r').
           let rv = Uint64 buf in
           if rv < 0x100000000 then Inl (MessageError ''ReadVarInt'') else Inr (rv, r'))
       else if discriminant = 0xfe then
         rbind (ReadFull 4 r) (\<lambda>(buf, r').
           let rv = (ucast (Uint32 buf) :: u64) in
           if rv < 0x10000 then Inl (MessageError ''ReadVarInt'') else Inr (rv, r'))
       else if discriminant = 0xfd then
         rbind (ReadFull 2 r) (\<lambda>(buf, r').
           let rv = (ucast (Uint16 buf) :: u64) in
           if rv < 0xfd then Inl (MessageError ''ReadVarInt'') else Inr (rv, r'))
       else Inr (ucast discriminant, r))"

definition WriteVarInt :: "u64 \<Rightarrow> bytes" where
  "WriteVarInt val =
     (if val < 0xfd then [ucast val]
      else if val \<le> 0xffff then 0xfd # PutUint16 (ucast val)
      else if val \<le> 0xffffffff then 0xfe # PutUint32 (ucast val)
      else 0xff # PutUint64 val)"

definition VarIntSerializeSize :: "u64 \<Rightarrow> nat" where
  "VarIntSerializeSize val =
     (if val < 0xfd then 1 else if val \<le> 0xffff then 3 else if val \<le> 0xffffffff then 5 else 9)"

lemma length_WriteVarInt [simp]: "length (WriteVarInt v) = VarIntSerializeSize v"
  by (simp add: WriteVarInt_def VarIntSerializeSize_def)

lemma VarIntSerializeSize_pos [simp]: "0 < VarIntSerializeSize v"
  by (simp add: VarIntSerializeSize_def)

lemma ucast_ucast_small:
  fixes v :: u64
  shows "v < 0x100 \<Longrightarrow> ucast (ucast v :: byte) = v"
    and "v \<le> 0xffff \<Longrightarrow> ucast (ucast v :: u16) = v"
    and "v \<le> 0xffffffff \<Longrightarrow> ucast (ucast v :: u32) = v"
  by (simp_all add: word_less_nat_alt word_le_nat_alt word_unat_eq_iff unsigned_ucast_eq
      unsigned_take_bit_eq take_bit_nat_eq_self)

lemma unat_ucast_widen:
  shows "unat (ucast (a :: byte) :: u64) = unat a"
    and "unat (ucast (b :: u16) :: u64) = unat b"
    and "unat (ucast (c :: u32) :: u64) = unat c"
  using unat_less [of a] unat_less [of b] unat_less [of c]
  by (simp_all add: unsigned_ucast_eq unsigned_take_bit_eq take_bit_nat_eq_self)

lemma ucast_widen_narrow:
  shows "ucast (ucast (a :: byte) :: u64) = a"
    and "ucast (ucast (b :: u16) :: u64) = b"
    and "ucast (ucast (c :: u32) :: u64) = c"
  using unat_less [of a] unat_less [of b] unat_less [of c]
  by (simp_all add: word_unat_eq_iff unsigned_ucast_eq unsigned_take_bit_eq take_bit_nat_eq_self)

lemma ReadVarInt_WriteVarInt [codec_simps]: "ReadVarInt (WriteVarInt v @ r) = Inr (v, r)"
proof -
  have 1: "ucast v \<noteq> (0xff :: byte) \<and> ucast v \<noteq> (0xfe :: byte) \<and> ucast v \<noteq> (0xfd :: byte)"
    if "v < 0xfd"
  proof -
    have "ucast (ucast v :: byte) = v"
      using that by (intro ucast_ucast_small) (simp add: word_less_nat_alt)
    with that show ?thesis by auto
  qed
  have 2: "ucast (ucast v :: byte) = v" if "v < 0xfd"
    using that by (intro ucast_ucast_small) (simp add: word_less_nat_alt)
  show ?thesis
    using 1 2 ucast_ucast_small(2,3) [of v]
    by (auto simp: ReadVarInt_def WriteVarInt_def ReadFull_def not_less not_le Let_def
        word_le_nat_alt word_less_nat_alt)
qed

lemma WriteVarInt_ReadVarInt:
  assumes "ReadVarInt bs = Inr (v, r)"
  shows "bs = WriteVarInt v @ r"
proof -
  from assms obtain d r1 where bs: "bs = d # r1"
    by (cases bs) (auto simp: ReadVarInt_def ReadFull_def)
  consider "d = 0xff" | "d = 0xfe" | "d = 0xfd" | "d \<noteq> 0xff" "d \<noteq> 0xfe" "d \<noteq> 0xfd"
    by blast
  then show ?thesis
  proof cases
    case 1
    with assms bs obtain buf where "r1 = buf @ r" "length buf = 8" "v = Uint64 buf"
      "\<not> Uint64 buf < 0x100000000"
      by (auto simp: ReadVarInt_def result_simps Let_def
          split: if_splits)
    with 1 bs show ?thesis
      by (simp add: WriteVarInt_def PutUint_Uint word_less_nat_alt word_le_nat_alt)
  next
    case 2
    with assms bs obtain buf where "r1 = buf @ r" "length buf = 4" "v = ucast (Uint32 buf)"
      "\<not> v < 0x10000"
      by (auto simp: ReadVarInt_def result_simps Let_def
          split: if_splits)
    with 2 bs show ?thesis
      using unat_less [of "Uint32 buf"]
      by (simp add: WriteVarInt_def PutUint_Uint word_less_nat_alt word_le_nat_alt
          unat_ucast_widen ucast_widen_narrow)
  next
    case 3
    with assms bs obtain buf where "r1 = buf @ r" "length buf = 2" "v = ucast (Uint16 buf)"
      "\<not> v < 0xfd"
      by (auto simp: ReadVarInt_def result_simps Let_def
          split: if_splits)
    with 3 bs show ?thesis
      using unat_less [of "Uint16 buf"]
      by (simp add: WriteVarInt_def PutUint_Uint word_less_nat_alt word_le_nat_alt
          unat_ucast_widen ucast_widen_narrow)
  next
    case 4
    with assms bs have v: "v = ucast d" "r1 = r"
      by (auto simp: ReadVarInt_def Let_def)
    have "unat d < 256" by (rule unat_byte)
    with 4 have "unat d < 0xfd"
      by (auto simp: word_unat_eq_iff)
    with v bs show ?thesis
      by (simp add: WriteVarInt_def word_less_nat_alt unat_ucast_widen ucast_widen_narrow)
  qed
qed

interpretation varint: canonical_codec "\<lambda>v. Inr (WriteVarInt v)" ReadVarInt "\<lambda>_. True"
  by unfold_locales (auto simp: codec_simps dest: WriteVarInt_ReadVarInt)

section \<open>Variable length byte strings\<close>

definition ReadVarBytes :: "u32 \<Rightarrow> bytes reader" where
  "ReadVarBytes maxAllowed bs =
     rbind (ReadVarInt bs) (\<lambda>(count, r).
       if ucast maxAllowed < count then Inl (MessageError ''ReadVarBytes'')
       else if length r < unat count then Inl (if r = [] then EOF else UnexpectedEOF)
       else ReadFull (unat count) r)"

definition WriteVarBytes :: "bytes \<Rightarrow> bytes" where
  "WriteVarBytes b = WriteVarInt (of_nat (length b)) @ b"

definition ensureElementCountFitsRemaining :: "bytes \<Rightarrow> u64 \<Rightarrow> nat \<Rightarrow> string \<Rightarrow> unit result" where
  "ensureElementCountFitsRemaining r count minElementSize funcName =
     (if minElementSize = 0 then Inr ()
      else if unat count \<le> length r div minElementSize then Inr ()
      else Inl (MessageError funcName))"

lemma unat_u64_of_nat: "n < 2 ^ 64 \<Longrightarrow> unat (of_nat n :: u64) = n"
  by (simp add: unat_of_nat)

lemma ReadVarBytes_WriteVarBytes [codec_simps]:
  assumes "length b \<le> unat maxAllowed"
  shows "ReadVarBytes maxAllowed (WriteVarBytes b @ r) = Inr (b, r)"
proof -
  have "length b < 2 ^ 64"
    using assms unat_less [of maxAllowed] by simp
  then show ?thesis
    using assms
    by (simp add: ReadVarBytes_def WriteVarBytes_def codec_simps unat_u64_of_nat
        word_less_nat_alt unat_ucast_widen)
qed

lemma WriteVarBytes_ReadVarBytes:
  assumes "ReadVarBytes maxAllowed bs = Inr (b, r)"
  shows "length b \<le> unat maxAllowed \<and> bs = WriteVarBytes b @ r"
proof -
  from assms obtain count r1 where c: "ReadVarInt bs = Inr (count, r1)"
    and le: "unat count \<le> unat maxAllowed" and b: "length b = unat count" "r1 = b @ r"
    by (auto simp: ReadVarBytes_def result_simps word_less_nat_alt unat_ucast_widen not_less
        split: if_splits)
  from b(1) have "of_nat (length b) = count" by simp
  with WriteVarInt_ReadVarInt [OF c] b le show ?thesis
    by (simp add: WriteVarBytes_def)
qed

lemma varbytes_codec:
  "canonical_codec (\<lambda>b. Inr (WriteVarBytes b)) (ReadVarBytes m) (\<lambda>b. length b \<le> unat m)"
  by unfold_locales (auto simp: codec_simps dest: WriteVarBytes_ReadVarBytes)

lemma length_WriteVarBytes:
  "length (WriteVarBytes b) = VarIntSerializeSize (of_nat (length b)) + length b"
  by (simp add: WriteVarBytes_def)

section \<open>Addresses\<close>

record Address =
  addr_Version :: byte
  addr_Hash :: bytes

definition validateAddressFields :: "byte \<Rightarrow> nat \<Rightarrow> string \<Rightarrow> unit result" where
  "validateAddressFields version hashLen op_name =
     (if version = 0 \<and> hashLen = 0 then Inr ()
      else if version > 31 then Inl (MessageError op_name)
      else if hashLen < 2 \<or> hashLen > 40 then Inl (MessageError op_name)
      else if version = 0 \<and> hashLen \<noteq> 20 \<and> hashLen \<noteq> 32 then Inl (MessageError op_name)
      else Inr ())"

definition Address_Encode :: "Address \<Rightarrow> bytes result" where
  "Address_Encode a =
     (let hashLen = length (addr_Hash a) in
      rbind (validateAddressFields (addr_Version a) hashLen ''Address.Encode'') (\<lambda>_.
        Inr ([addr_Version a] @ [of_nat hashLen] @ addr_Hash a)))"

definition Address_Decode :: "Address reader" where
  "Address_Decode bs =
     rbind (ReadFull 1 bs) (\<lambda>(v, r).
     rbind (ReadFull 1 r) (\<lambda>(n, r').
     rbind (validateAddressFields (hd v) (unat (hd n)) ''Address.Decode'') (\<lambda>_.
       if hd n = 0 then Inr (\<lparr>addr_Version = hd v, addr_Hash = []\<rparr>, r')
       else rbind (ReadFull (unat (hd n)) r') (\<lambda>(h, r'').
         Inr (\<lparr>addr_Version = hd v, addr_Hash = h\<rparr>, r'')))))"

definition Address_SerializeSize :: "Address \<Rightarrow> nat" where
  "Address_SerializeSize a = 2 + length (addr_Hash a)"

definition IsNulldata :: "Address \<Rightarrow> bool" where
  "IsNulldata a \<longleftrightarrow> addr_Version a = 31"

definition Address_IsUnknown :: "Address \<Rightarrow> bool" where
  "Address_IsUnknown a =
     (if addr_Version a = 0 then length (addr_Hash a) \<noteq> 20 \<and> length (addr_Hash a) \<noteq> 32
      else if addr_Version a = 31 then False
      else True)"

definition WitnessProgram :: "Address \<Rightarrow> bytes option" where
  "WitnessProgram a =
     (if addr_Version a > 16 then None
      else Some ([if addr_Version a = 0 then 0 else 0x50 + addr_Version a]
        @ [of_nat (length (addr_Hash a))] @ addr_Hash a))"

definition OutputKey :: "Address \<Rightarrow> bytes" where
  "OutputKey a =
     (case WitnessProgram a of Some program \<Rightarrow> program
      | None \<Rightarrow> [addr_Version a] @ [of_nat (length (addr_Hash a))] @ addr_Hash a)"

definition NewAddress :: "byte \<Rightarrow> bytes \<Rightarrow> Address result" where
  "NewAddress version h =
     (if version = 0 \<and> length h = 0 then Inl (MessageError ''NewAddress'')
      else rbind (validateAddressFields version (length h) ''NewAddress'') (\<lambda>_.
        Inr \<lparr>addr_Version = version, addr_Hash = h\<rparr>))"

lemma validateAddressFields_ok:
  "validateAddressFields v n op_name = Inr u \<longleftrightarrow>
     v = 0 \<and> (n = 0 \<or> n = 20 \<or> n = 32) \<or> v \<noteq> 0 \<and> v \<le> 31 \<and> 2 \<le> n \<and> n \<le> 40"
  by (auto simp: validateAddressFields_def)

lemma unat_byte_of_nat: "n < 256 \<Longrightarrow> unat (of_nat n :: byte) = n"
  by (simp add: unat_of_nat)

lemma Address_Encode_ok:
  "Address_Encode a = Inr bs \<longleftrightarrow>
     validateAddressFields (addr_Version a) (length (addr_Hash a)) ''Address.Encode'' = Inr ()
     \<and> bs = [addr_Version a, of_nat (length (addr_Hash a))] @ addr_Hash a"
  by (auto simp: Address_Encode_def result_simps Let_def)

lemma length_Address_Encode:
  "Address_Encode a = Inr bs \<Longrightarrow> length bs = Address_SerializeSize a"
  by (auto simp: Address_Encode_ok Address_SerializeSize_def)

interpretation address: canonical_codec Address_Encode Address_Decode "\<lambda>_. True"
proof
  fix a :: Address and bs r
  assume "Address_Encode a = Inr bs"
  then have ok: "validateAddressFields (addr_Version a) (length (addr_Hash a)) op_name = Inr ()"
    and bs: "bs = [addr_Version a, of_nat (length (addr_Hash a))] @ addr_Hash a" for op_name
    by (auto simp: Address_Encode_ok validateAddressFields_ok)
  from ok have len: "length (addr_Hash a) \<le> 40"
    by (auto simp: validateAddressFields_ok)
  then have n: "unat (of_nat (length (addr_Hash a)) :: byte) = length (addr_Hash a)"
    by (intro unat_byte_of_nat) simp
  then have z: "(of_nat (length (addr_Hash a)) :: byte) = 0 \<longleftrightarrow> addr_Hash a = []"
    by (metis length_0_conv unat_eq_zero)
  show "Address_Decode (bs @ r) = Inr (a, r)"
    using ok [of "''Address.Decode''"] n z
    by (auto simp: Address_Decode_def bs codec_simps)
next
  fix bs :: bytes and a :: Address and r
  assume "Address_Decode bs = Inr (a, r)"
  then show "True \<and> (\<exists>cs. Address_Encode a = Inr cs \<and> bs = cs @ r)"
    by (auto simp: Address_Decode_def Address_Encode_ok result_simps validateAddressFields_ok
        length_Suc_conv word_unat_eq_iff split: if_splits)
qed

section \<open>Covenants\<close>

record Covenant =
  cov_Type :: byte
  cov_Items :: "bytes list"

abbreviation (input) CovenantNone :: byte where "CovenantNone \<equiv> 0"
abbreviation (input) CovenantClaim :: byte where "CovenantClaim \<equiv> 1"
abbreviation (input) CovenantOpen :: byte where "CovenantOpen \<equiv> 2"
abbreviation (input) CovenantBid :: byte where "CovenantBid \<equiv> 3"
abbreviation (input) CovenantReveal :: byte where "CovenantReveal \<equiv> 4"
abbreviation (input) CovenantRedeem :: byte where "CovenantRedeem \<equiv> 5"
abbreviation (input) CovenantRegister :: byte where "CovenantRegister \<equiv> 6"
abbreviation (input) CovenantUpdate :: byte where "CovenantUpdate \<equiv> 7"
abbreviation (input) CovenantRenew :: byte where "CovenantRenew \<equiv> 8"
abbreviation (input) CovenantTransfer :: byte where "CovenantTransfer \<equiv> 9"
abbreviation (input) CovenantFinalize :: byte where "CovenantFinalize \<equiv> 10"
abbreviation (input) CovenantRevoke :: byte where "CovenantRevoke \<equiv> 11"

definition MaxCovenantItems :: nat where
  [simp]: "MaxCovenantItems = 1000"

definition maxCovenantItemSize :: nat where
  [simp]: "maxCovenantItemSize = 585"

definition validateCovenantFields :: "byte \<Rightarrow> nat \<Rightarrow> bytes list \<Rightarrow> string \<Rightarrow> unit result" where
  "validateCovenantFields covenantType itemCount items op_name =
     (if itemCount > MaxCovenantItems then Inl (MessageError op_name)
      else if \<exists>item \<in> set items. length item > maxCovenantItemSize then Inl (MessageError op_name)
      else Inr ())"

definition Covenant_Encode :: "Covenant \<Rightarrow> bytes result" where
  "Covenant_Encode c =
     (let itemCount = length (cov_Items c) in
      rbind (validateCovenantFields (cov_Type c) itemCount (cov_Items c) ''Covenant.Encode'') (\<lambda>_.
      rbind (write_many (\<lambda>item. Inr (WriteVarBytes item)) (cov_Items c)) (\<lambda>items.
        Inr ([cov_Type c] @ WriteVarInt (of_nat itemCount) @ items))))"

definition Covenant_Decode :: "Covenant reader" where
  "Covenant_Decode bs =
     rbind (ReadFull 1 bs) (\<lambda>(t, r).
     rbind (ReadVarInt r) (\<lambda>(itemCount, r').
       if unat itemCount > MaxCovenantItems then Inl (MessageError ''Covenant.Decode'')
       else if itemCount = 0 then Inr (\<lparr>cov_Type = hd t, cov_Items = []\<rparr>, r')
       else rbind (read_many (ReadVarBytes (of_nat maxCovenantItemSize)) (unat itemCount) r')
         (\<lambda>(items, r''). Inr (\<lparr>cov_Type = hd t, cov_Items = items\<rparr>, r''))))"

definition Covenant_SerializeSize :: "Covenant \<Rightarrow> nat" where
  "Covenant_SerializeSize c =
     1 + VarIntSerializeSize (of_nat (length (cov_Items c)))
     + (\<Sum>item \<leftarrow> cov_Items c. VarIntSerializeSize (of_nat (length item)) + length item)"

definition IsKnown :: "Covenant \<Rightarrow> bool" where
  "IsKnown c \<longleftrightarrow> cov_Type c \<le> CovenantRevoke"

definition Covenant_IsUnknown :: "Covenant \<Rightarrow> bool" where
  "Covenant_IsUnknown c \<longleftrightarrow> \<not> IsKnown c"

definition IsDustworthy :: "Covenant \<Rightarrow> bool" where
  "IsDustworthy c \<longleftrightarrow>
     cov_Type c = CovenantNone \<or> cov_Type c = CovenantBid \<or> Covenant_IsUnknown c"

definition Covenant_IsUnspendable :: "Covenant \<Rightarrow> bool" where
  "Covenant_IsUnspendable c \<longleftrightarrow> cov_Type c = CovenantRevoke"

lemma validateCovenantFields_ok:
  "validateCovenantFields t n items op_name = Inr u \<longleftrightarrow>
     n \<le> MaxCovenantItems \<and> list_all (\<lambda>item. length item \<le> maxCovenantItemSize) items"
  by (force simp: validateCovenantFields_def list_all_iff not_less)

interpretation covenant_item: canonical_codec "\<lambda>b. Inr (WriteVarBytes b)"
    "ReadVarBytes (of_nat maxCovenantItemSize)" "\<lambda>b. length b \<le> maxCovenantItemSize"
  using varbytes_codec [of "of_nat maxCovenantItemSize"] by simp

lemma Covenant_Encode_ok:
  "Covenant_Encode c = Inr bs \<longleftrightarrow>
     length (cov_Items c) \<le> MaxCovenantItems
     \<and> list_all (\<lambda>item. length item \<le> maxCovenantItemSize) (cov_Items c)
     \<and> (\<exists>items. write_many (\<lambda>item. Inr (WriteVarBytes item)) (cov_Items c) = Inr items
          \<and> bs = [cov_Type c] @ WriteVarInt (of_nat (length (cov_Items c))) @ items)"
  by (auto simp: Covenant_Encode_def result_simps Let_def validateCovenantFields_ok)

lemma write_many_varbytes_length:
  "write_many (\<lambda>item. Inr (WriteVarBytes item)) xs = Inr bs \<Longrightarrow>
    length bs = (\<Sum>item \<leftarrow> xs. VarIntSerializeSize (of_nat (length item)) + length item)"
  by (induction xs arbitrary: bs) (auto simp: result_simps length_WriteVarBytes)

lemma length_Covenant_Encode:
  "Covenant_Encode c = Inr bs \<Longrightarrow> length bs = Covenant_SerializeSize c"
  by (auto simp: Covenant_Encode_ok Covenant_SerializeSize_def write_many_varbytes_length)

interpretation covenant: canonical_codec Covenant_Encode Covenant_Decode "\<lambda>_. True"
proof
  fix c :: Covenant and bs r
  assume "Covenant_Encode c = Inr bs"
  then obtain items where len: "length (cov_Items c) \<le> 1000"
    and ok: "list_all (\<lambda>item. length item \<le> maxCovenantItemSize) (cov_Items c)"
    and items: "write_many (\<lambda>item. Inr (WriteVarBytes item)) (cov_Items c) = Inr items"
    and bs: "bs = [cov_Type c] @ WriteVarInt (of_nat (length (cov_Items c))) @ items"
    by (auto simp: Covenant_Encode_ok)
  have n: "unat (of_nat (length (cov_Items c)) :: u64) = length (cov_Items c)"
    using len by (intro unat_u64_of_nat) simp
  then have z: "(of_nat (length (cov_Items c)) :: u64) = 0 \<longleftrightarrow> cov_Items c = []"
    by (metis length_0_conv unat_eq_zero)
  show "Covenant_Decode (bs @ r) = Inr (c, r)"
    using len n z items covenant_item.read_write_many [OF ok items, of r]
    by (cases "cov_Items c = []") (auto simp: Covenant_Decode_def bs codec_simps)
next
  fix bs :: bytes and c :: Covenant and r
  assume "Covenant_Decode bs = Inr (c, r)"
  then obtain t r1 n r2 where 1: "bs = t # r1" "ReadVarInt r1 = Inr (n, r2)" "unat n \<le> 1000"
    and 2: "if n = 0 then c = \<lparr>cov_Type = t, cov_Items = []\<rparr> \<and> r = r2
      else read_many (ReadVarBytes (of_nat maxCovenantItemSize)) (unat n) r2 = Inr (cov_Items c, r)
        \<and> cov_Type c = t"
    by (auto simp: Covenant_Decode_def result_simps length_Suc_conv not_less split: if_splits)
  have 3: "length (cov_Items c) = unat n"
    using 2 by (auto dest: read_many_length split: if_splits)
  have 4: "list_all (\<lambda>b. length b \<le> maxCovenantItemSize) (cov_Items c)
      \<and> (\<exists>cs. write_many (\<lambda>b. Inr (WriteVarBytes b)) (cov_Items c) = Inr cs \<and> r2 = cs @ r)
      \<and> cov_Type c = t"
    using 2 covenant_item.write_read_many [of "unat n" r2 "cov_Items c" r] by (auto split: if_splits)
  from 1 3 4 WriteVarInt_ReadVarInt [OF 1(2)]
  show "True \<and> (\<exists>cs. Covenant_Encode c = Inr cs \<and> bs = cs @ r)"
    by (auto simp: Covenant_Encode_ok)
qed

section \<open>Properties\<close>

text \<open>C23: The variable length integer is read exactly when the input starts with its canonical
  encoding: the reader returns the value that the writer encodes and the bytes after it, and it
  rejects every longer (non-canonical) encoding.\<close>

theorem varint_canonical: "ReadVarInt bs = Inr (v, r) \<longleftrightarrow> bs = WriteVarInt v @ r"
  using varint.dec_iff [of bs v r] by simp

text \<open>C22: Covenants have one encoding: a covenant is decoded from an input exactly when it can be
  encoded (at most the allowed number of items, none over the allowed size) and the input starts
  with that encoding.\<close>

theorem covenant_canonical:
  "Covenant_Decode bs = Inr (c, r) \<longleftrightarrow> (\<exists>cs. Covenant_Encode c = Inr cs \<and> bs = cs @ r)"
  using covenant.dec_iff [of bs c r] by simp

end
