(* ===== verification/Wire_Tx.thy ===== *)
theory Wire_Tx
  imports Wire_Codec
begin

text \<open>
  Transactions (src/wire/msgtx.go): outpoints, inputs, outputs and the whole message, with and
  without witness data. The scratch slab the decoder reads witness items into is modelled by the
  number of bytes left in it, since it bounds what is accepted. Decoding is proved to invert
  encoding, and every accepted byte string to be the encoding of the transaction it yields.
\<close>

section \<open>Data\<close>

record OutPoint =
  op_Hash :: hash
  op_Index :: u32

record TxIn =
  ti_PreviousOutPoint :: OutPoint
  ti_Sequence :: u32
  ti_Witness :: "bytes list"

record TxOut =
  to_Value :: int
  to_Address :: Address
  to_Covenant :: Covenant

record MsgTx =
  tx_Version :: u32
  tx_TxIn :: "TxIn list"
  tx_TxOut :: "TxOut list"
  tx_LockTime :: u32

definition MaxBlockPayload :: nat where
  "MaxBlockPayload = 4000000"

definition minTxInPayload :: nat where
  "minTxInPayload = 40"

definition maxTxInPerMessage :: nat where
  "maxTxInPerMessage = MaxBlockPayload div minTxInPayload + 1"

definition MinTxOutPayload :: nat where
  "MinTxOutPayload = 12"

definition maxTxOutPerMessage :: nat where
  "maxTxOutPerMessage = MaxBlockPayload div MinTxOutPayload + 1"

definition defaultTxInOutAlloc :: nat where
  "defaultTxInOutAlloc = 15"

definition maxWitnessItemsPerInput :: nat where
  "maxWitnessItemsPerInput = 1000"

definition maxWitnessItemSize :: nat where
  "maxWitnessItemSize = 4000000"

definition scriptSlabSize :: nat where
  "scriptSlabSize = 2 ^ 22"

section \<open>Outpoints and inputs\<close>

definition writeOutPointBuf :: "OutPoint \<Rightarrow> bytes" where
  "writeOutPointBuf op = op_Hash op @ PutUint32 (op_Index op)"

definition readOutPointBuf :: "OutPoint reader" where
  "readOutPointBuf bs =
     rbind (ReadFull HashSize bs) (\<lambda>(h, r).
     rbind (ReadFull 4 r) (\<lambda>(buf, r'). Inr (\<lparr>op_Hash = h, op_Index = Uint32 buf\<rparr>, r')))"

definition writeTxInBuf :: "TxIn \<Rightarrow> bytes" where
  "writeTxInBuf ti = writeOutPointBuf (ti_PreviousOutPoint ti) @ PutUint32 (ti_Sequence ti)"

definition readTxInBuf :: "TxIn reader" where
  "readTxInBuf bs =
     rbind (readOutPointBuf bs) (\<lambda>(op, r).
     rbind (ReadFull 4 r) (\<lambda>(buf, r').
       Inr (\<lparr>ti_PreviousOutPoint = op, ti_Sequence = Uint32 buf, ti_Witness = []\<rparr>, r')))"

definition TxIn_SerializeSize :: "TxIn \<Rightarrow> nat" where
  "TxIn_SerializeSize ti = 40"

section \<open>Outputs\<close>

definition WriteTxOutBuf :: "TxOut \<Rightarrow> bytes result" where
  "WriteTxOutBuf t =
     rbind (Address_Encode (to_Address t)) (\<lambda>a.
     rbind (Covenant_Encode (to_Covenant t)) (\<lambda>c.
       Inr (PutUint64 (word_of_int (to_Value t)) @ a @ c)))"

definition readTxOutBuf :: "TxOut reader" where
  "readTxOutBuf bs =
     rbind (ReadFull 8 bs) (\<lambda>(buf, r).
     rbind (Address_Decode r) (\<lambda>(a, r').
     rbind (Covenant_Decode r') (\<lambda>(c, r'').
       Inr (\<lparr>to_Value = sint (Uint64 buf), to_Address = a, to_Covenant = c\<rparr>, r''))))"

definition TxOut_SerializeSize :: "TxOut \<Rightarrow> nat" where
  "TxOut_SerializeSize t =
     8 + Address_SerializeSize (to_Address t) + Covenant_SerializeSize (to_Covenant t)"

section \<open>Witnesses\<close>

definition TxWitness_Encode :: "bytes list \<Rightarrow> bytes" where
  "TxWitness_Encode w = WriteVarInt (of_nat (length w)) @ concat (map WriteVarBytes w)"

definition TxWitness_SerializeSize :: "bytes list \<Rightarrow> nat" where
  "TxWitness_SerializeSize w =
     VarIntSerializeSize (of_nat (length w))
     + (\<Sum>item \<leftarrow> w. VarIntSerializeSize (of_nat (length item)) + length item)"

definition readScriptBuf :: "nat \<Rightarrow> bytes reader" where
  "readScriptBuf slabRemaining bs =
     rbind (ReadVarInt bs) (\<lambda>(count, r).
       if slabRemaining < unat count then Inl (MessageError ''readScript'')
       else if maxWitnessItemSize < unat count then Inl (MessageError ''readScript'')
       else if length r < unat count then Inl (if r = [] then EOF else UnexpectedEOF)
       else ReadFull (unat count) r)"

fun readWitnessItems :: "nat \<Rightarrow> nat \<Rightarrow> bytes \<Rightarrow> error + (bytes list \<times> nat) \<times> bytes" where
  "readWitnessItems 0 slab bs = Inr (([], slab), bs)"
| "readWitnessItems (Suc n) slab bs =
     rbind (readScriptBuf slab bs) (\<lambda>(item, r).
     rbind (readWitnessItems n (slab - length item) r) (\<lambda>((items, slab'), r').
       Inr ((item # items, slab'), r')))"

fun readWitnesses :: "TxIn list \<Rightarrow> nat \<Rightarrow> TxIn list reader" where
  "readWitnesses [] slab bs = Inr ([], bs)"
| "readWitnesses (ti # tis) slab bs =
     rbind (ReadVarInt bs) (\<lambda>(witCount, r).
       if maxWitnessItemsPerInput < unat witCount then Inl (MessageError ''MsgTx.BtcDecode'')
       else if slab < unat witCount then Inl (MessageError ''MsgTx.BtcDecode'')
       else rbind (readWitnessItems (unat witCount) slab r) (\<lambda>((items, slab'), r').
            rbind (readWitnesses tis slab' r') (\<lambda>(tis', r'').
              Inr (ti\<lparr>ti_Witness := items\<rparr> # tis', r''))))"

section \<open>Transactions\<close>

definition btcDecode :: "bool \<Rightarrow> nat \<Rightarrow> MsgTx reader" where
  "btcDecode witnessEncoding slab bs =
     rbind (ReadFull 4 bs) (\<lambda>(vbuf, r0).
     rbind (ReadVarInt r0) (\<lambda>(inCount, r1).
       if maxTxInPerMessage < unat inCount then Inl (MessageError ''MsgTx.BtcDecode'') else
     rbind (if defaultTxInOutAlloc < unat inCount
            then ensureElementCountFitsRemaining r1 inCount minTxInPayload ''MsgTx.BtcDecode''
            else Inr ()) (\<lambda>_.
     rbind (read_many readTxInBuf (unat inCount) r1) (\<lambda>(txIns, r2).
     rbind (ReadVarInt r2) (\<lambda>(outCount, r3).
       if maxTxOutPerMessage < unat outCount then Inl (MessageError ''MsgTx.BtcDecode'') else
     rbind (if defaultTxInOutAlloc < unat outCount
            then ensureElementCountFitsRemaining r3 outCount MinTxOutPayload ''MsgTx.BtcDecode''
            else Inr ()) (\<lambda>_.
     rbind (read_many readTxOutBuf (unat outCount) r3) (\<lambda>(txOuts, r4).
     rbind (ReadFull 4 r4) (\<lambda>(lbuf, r5).
     rbind (if witnessEncoding then readWitnesses txIns slab r5 else Inr (txIns, r5)) (\<lambda>(txIns', r6).
       Inr (\<lparr>tx_Version = Uint32 vbuf, tx_TxIn = txIns', tx_TxOut = txOuts,
             tx_LockTime = Uint32 lbuf\<rparr>, r6))))))))))"

definition btcEncode :: "bool \<Rightarrow> MsgTx \<Rightarrow> bytes result" where
  "btcEncode witnessEncoding msg =
     rbind (write_many WriteTxOutBuf (tx_TxOut msg)) (\<lambda>outs.
       Inr (PutUint32 (tx_Version msg)
         @ WriteVarInt (of_nat (length (tx_TxIn msg)))
         @ concat (map writeTxInBuf (tx_TxIn msg))
         @ WriteVarInt (of_nat (length (tx_TxOut msg)))
         @ outs
         @ PutUint32 (tx_LockTime msg)
         @ (if witnessEncoding
            then concat (map (\<lambda>ti. TxWitness_Encode (ti_Witness ti)) (tx_TxIn msg)) else [])))"

definition SerializeNoWitness :: "MsgTx \<Rightarrow> bytes result" where
  "SerializeNoWitness msg =
     rbind (write_many WriteTxOutBuf (tx_TxOut msg)) (\<lambda>outs.
       Inr (PutUint32 (tx_Version msg)
         @ WriteVarInt (of_nat (length (tx_TxIn msg)))
         @ concat (map writeTxInBuf (tx_TxIn msg))
         @ WriteVarInt (of_nat (length (tx_TxOut msg)))
         @ outs
         @ PutUint32 (tx_LockTime msg)))"

definition MsgTx_baseSize :: "MsgTx \<Rightarrow> nat" where
  "MsgTx_baseSize msg =
     8 + VarIntSerializeSize (of_nat (length (tx_TxIn msg)))
     + VarIntSerializeSize (of_nat (length (tx_TxOut msg)))
     + (\<Sum>ti \<leftarrow> tx_TxIn msg. TxIn_SerializeSize ti)
     + (\<Sum>t \<leftarrow> tx_TxOut msg. TxOut_SerializeSize t)"

definition MsgTx_SerializeSize :: "MsgTx \<Rightarrow> nat" where
  "MsgTx_SerializeSize msg =
     MsgTx_baseSize msg + (\<Sum>ti \<leftarrow> tx_TxIn msg. TxWitness_SerializeSize (ti_Witness ti))"

definition Deserialize :: "MsgTx reader" where
  "Deserialize = btcDecode True scriptSlabSize"

definition DeserializeNoWitness :: "MsgTx reader" where
  "DeserializeNoWitness = btcDecode False scriptSlabSize"

definition Serialize :: "MsgTx \<Rightarrow> bytes result" where
  "Serialize = btcEncode True"

definition HasWitness :: "MsgTx \<Rightarrow> bool" where
  "HasWitness msg \<longleftrightarrow> (\<exists>ti \<in> set (tx_TxIn msg). length (ti_Witness ti) \<noteq> 0)"

text \<open>
  \<open>TxHash\<close> and \<open>WitnessHash\<close> take the \<open>blake2b.Sum256\<close> of golang.org/x/crypto as an argument;
  the panic of \<open>TxHash\<close> on an unserialisable output is the error branch.
\<close>

definition TxHash :: "(bytes \<Rightarrow> hash) \<Rightarrow> MsgTx \<Rightarrow> hash result" where
  "TxHash blake2b msg =
     (case SerializeNoWitness msg of
        Inl e \<Rightarrow> Inl (Panic ''MsgTx.TxHash: SerializeNoWitness failed'')
      | Inr b \<Rightarrow> Inr (blake2b b))"

definition WitnessHash :: "(bytes \<Rightarrow> hash) \<Rightarrow> MsgTx \<Rightarrow> hash result" where
  "WitnessHash blake2b msg =
     rbind (TxHash blake2b msg) (\<lambda>txHash.
       let witHash = blake2b (concat (map (\<lambda>ti. TxWitness_Encode (ti_Witness ti)) (tx_TxIn msg)))
       in Inr (blake2b (txHash @ witHash)))"

section \<open>Outpoints, inputs and outputs are canonical codecs\<close>

interpretation outpoint: canonical_codec "\<lambda>op. Inr (writeOutPointBuf op)" readOutPointBuf
    "\<lambda>op. length (op_Hash op) = HashSize"
  by unfold_locales
    (auto simp: readOutPointBuf_def writeOutPointBuf_def codec_simps result_simps PutUint_Uint)

definition valid_TxIn :: "TxIn \<Rightarrow> bool" where
  "valid_TxIn ti \<longleftrightarrow> length (op_Hash (ti_PreviousOutPoint ti)) = HashSize"

interpretation txin: canonical_codec "\<lambda>ti. Inr (writeTxInBuf ti)" readTxInBuf
    "\<lambda>ti. valid_TxIn ti \<and> ti_Witness ti = []"
proof
  fix ti :: TxIn and bs r
  assume "valid_TxIn ti \<and> ti_Witness ti = []" and "Inr (writeTxInBuf ti) = (Inr bs :: bytes result)"
  then show "readTxInBuf (bs @ r) = Inr (ti, r)"
    using outpoint.dec_enc [of "ti_PreviousOutPoint ti"]
    by (auto simp: readTxInBuf_def writeTxInBuf_def valid_TxIn_def codec_simps)
next
  fix bs :: bytes and ti :: TxIn and r
  assume "readTxInBuf bs = Inr (ti, r)"
  then show "(valid_TxIn ti \<and> ti_Witness ti = [])
      \<and> (\<exists>cs. Inr (writeTxInBuf ti) = (Inr cs :: bytes result) \<and> bs = cs @ r)"
    by (auto simp: readTxInBuf_def writeTxInBuf_def valid_TxIn_def result_simps PutUint_Uint
        dest!: outpoint.enc_dec)
qed

lemma sint_word_of_int_int64: "is_int64 v \<Longrightarrow> sint (word_of_int v :: u64) = v"
  by (simp add: is_int64_def sint_sbintrunc' signed_take_bit_int_eq_self)

lemma is_int64_sint: "is_int64 (sint (w :: u64))"
  using sint_greater_eq [of w] sint_less [of w] by (simp add: is_int64_def)

lemma WriteTxOutBuf_ok:
  "WriteTxOutBuf t = Inr bs \<longleftrightarrow>
     (\<exists>a c. Address_Encode (to_Address t) = Inr a \<and> Covenant_Encode (to_Covenant t) = Inr c
        \<and> bs = PutUint64 (word_of_int (to_Value t)) @ a @ c)"
  by (auto simp: WriteTxOutBuf_def result_simps)

interpretation txout: canonical_codec WriteTxOutBuf readTxOutBuf "\<lambda>t. is_int64 (to_Value t)"
proof
  fix t :: TxOut and bs r
  assume "is_int64 (to_Value t)" and "WriteTxOutBuf t = Inr bs"
  then show "readTxOutBuf (bs @ r) = Inr (t, r)"
    by (auto simp: readTxOutBuf_def WriteTxOutBuf_ok ReadFull_append
        address.dec_enc covenant.dec_enc sint_word_of_int_int64)
next
  fix bs :: bytes and t :: TxOut and r
  assume "readTxOutBuf bs = Inr (t, r)"
  then show "is_int64 (to_Value t) \<and> (\<exists>cs. WriteTxOutBuf t = Inr cs \<and> bs = cs @ r)"
    by (auto simp: readTxOutBuf_def WriteTxOutBuf_def result_simps is_int64_sint PutUint_Uint
        dest!: address.enc_dec covenant.enc_dec)
qed

section \<open>Witness data\<close>

text \<open>What fits into a slab of the given size, item by item; the result is what is left of it.\<close>

fun items_fit :: "nat \<Rightarrow> bytes list \<Rightarrow> nat option" where
  "items_fit slab [] = Some slab"
| "items_fit slab (x # xs) =
     (if length x \<le> slab \<and> length x \<le> maxWitnessItemSize then items_fit (slab - length x) xs else None)"

fun wits_fit :: "nat \<Rightarrow> TxIn list \<Rightarrow> bool" where
  "wits_fit slab [] = True"
| "wits_fit slab (ti # tis) =
     (length (ti_Witness ti) \<le> maxWitnessItemsPerInput \<and> length (ti_Witness ti) \<le> slab
      \<and> (case items_fit slab (ti_Witness ti) of None \<Rightarrow> False | Some slab' \<Rightarrow> wits_fit slab' tis))"

abbreviation strip :: "TxIn \<Rightarrow> TxIn" where
  "strip ti \<equiv> ti\<lparr>ti_Witness := []\<rparr>"

lemma writeTxInBuf_strip [simp]: "writeTxInBuf (strip ti) = writeTxInBuf ti"
  by (simp add: writeTxInBuf_def)

lemma readScriptBuf_WriteVarBytes:
  assumes "length b \<le> slab" and "length b \<le> maxWitnessItemSize"
  shows "readScriptBuf slab (WriteVarBytes b @ r) = Inr (b, r)"
proof -
  have "unat (of_nat (length b) :: u64) = length b"
    using assms(2) by (intro unat_u64_of_nat) (simp add: maxWitnessItemSize_def)
  then show ?thesis
    using assms by (simp add: readScriptBuf_def WriteVarBytes_def codec_simps)
qed

lemma readScriptBuf_canonical:
  assumes "readScriptBuf slab bs = Inr (b, r)"
  shows "length b \<le> slab \<and> length b \<le> maxWitnessItemSize \<and> bs = WriteVarBytes b @ r"
proof -
  from assms obtain count r1 where c: "ReadVarInt bs = Inr (count, r1)"
    and le: "unat count \<le> slab" "unat count \<le> maxWitnessItemSize"
    and b: "length b = unat count" "r1 = b @ r"
    by (auto simp: readScriptBuf_def result_simps not_less split: if_splits)
  from b(1) have "of_nat (length b) = count" by simp
  with WriteVarInt_ReadVarInt [OF c] b le show ?thesis
    by (simp add: WriteVarBytes_def)
qed

lemma readWitnessItems_encoded:
  "items_fit slab xs = Some slab' \<Longrightarrow>
    readWitnessItems (length xs) slab (concat (map WriteVarBytes xs) @ r) = Inr ((xs, slab'), r)"
  by (induction xs arbitrary: slab) (auto simp: readScriptBuf_WriteVarBytes split: if_splits)

lemma readWitnessItems_canonical:
  "readWitnessItems n slab bs = Inr ((xs, slab'), r) \<Longrightarrow>
    length xs = n \<and> items_fit slab xs = Some slab' \<and> bs = concat (map WriteVarBytes xs) @ r"
proof (induction n slab bs arbitrary: xs slab' r rule: readWitnessItems.induct)
  case (2 n slab bs)
  from "2.prems" obtain b r1 ys where b: "readScriptBuf slab bs = Inr (b, r1)"
    and ys: "readWitnessItems n (slab - length b) r1 = Inr ((ys, slab'), r)" and xs: "xs = b # ys"
    by (auto simp: result_simps)
  from readScriptBuf_canonical [OF b] "2.IH" [OF b _ ys] xs show ?case by auto
qed simp

lemma readWitnesses_encoded:
  "wits_fit slab tis \<Longrightarrow>
    readWitnesses (map strip tis) slab
      (concat (map (\<lambda>ti. TxWitness_Encode (ti_Witness ti)) tis) @ r) = Inr (tis, r)"
proof (induction tis arbitrary: slab)
  case (Cons ti tis)
  from Cons.prems obtain slab' where fit: "items_fit slab (ti_Witness ti) = Some slab'"
    and len: "length (ti_Witness ti) \<le> maxWitnessItemsPerInput" "length (ti_Witness ti) \<le> slab"
    and rest: "wits_fit slab' tis"
    by (auto split: option.splits)
  have "unat (of_nat (length (ti_Witness ti)) :: u64) = length (ti_Witness ti)"
    using len(1) by (intro unat_u64_of_nat) (simp add: maxWitnessItemsPerInput_def)
  with len Cons.IH [OF rest] show ?case
    by (simp add: TxWitness_Encode_def codec_simps readWitnessItems_encoded [OF fit])
qed simp

lemma readWitnesses_canonical:
  "readWitnesses tis0 slab bs = Inr (tis, r) \<Longrightarrow>
    map strip tis = map strip tis0 \<and> wits_fit slab tis
    \<and> bs = concat (map (\<lambda>ti. TxWitness_Encode (ti_Witness ti)) tis) @ r"
proof (induction tis0 slab bs arbitrary: tis r rule: readWitnesses.induct)
  case (2 ti tis0 slab bs)
  from "2.prems" obtain wc r1 items slab' r2 tis' where wc: "ReadVarInt bs = Inr (wc, r1)"
    and le: "\<not> maxWitnessItemsPerInput < unat wc" "\<not> slab < unat wc"
    and items: "readWitnessItems (unat wc) slab r1 = Inr ((items, slab'), r2)"
    and rest: "readWitnesses tis0 slab' r2 = Inr (tis', r)"
    and tis: "tis = ti\<lparr>ti_Witness := items\<rparr> # tis'"
    by (auto simp: result_simps split: if_splits)
  have IH: "map strip tis' = map strip tis0 \<and> wits_fit slab' tis'
      \<and> r2 = concat (map (\<lambda>ti. TxWitness_Encode (ti_Witness ti)) tis') @ r"
    using "2.IH" wc le items rest by fastforce
  have it: "length items = unat wc" "items_fit slab items = Some slab'"
    "r1 = concat (map WriteVarBytes items) @ r2"
    using readWitnessItems_canonical [OF items] by simp_all
  from it(1) have "of_nat (length items) = wc" by simp
  with IH it le tis WriteVarInt_ReadVarInt [OF wc] show ?case
    by (simp add: TxWitness_Encode_def not_less)
qed simp

lemma length_TxWitness_Encode: "length (TxWitness_Encode w) = TxWitness_SerializeSize w"
  by (simp add: TxWitness_Encode_def TxWitness_SerializeSize_def length_concat comp_def
      length_WriteVarBytes)

section \<open>Transactions are canonical codecs\<close>

definition valid_MsgTx :: "bool \<Rightarrow> nat \<Rightarrow> MsgTx \<Rightarrow> bool" where
  "valid_MsgTx witnessEncoding slab msg \<longleftrightarrow>
     list_all valid_TxIn (tx_TxIn msg)
     \<and> list_all (\<lambda>t. is_int64 (to_Value t)) (tx_TxOut msg)
     \<and> length (tx_TxIn msg) \<le> maxTxInPerMessage \<and> length (tx_TxOut msg) \<le> maxTxOutPerMessage
     \<and> (if witnessEncoding then wits_fit slab (tx_TxIn msg)
        else list_all (\<lambda>ti. ti_Witness ti = []) (tx_TxIn msg))"

lemma length_writeTxInBuf: "valid_TxIn ti \<Longrightarrow> length (writeTxInBuf ti) = TxIn_SerializeSize ti"
  by (simp add: writeTxInBuf_def writeOutPointBuf_def valid_TxIn_def TxIn_SerializeSize_def)

lemma length_WriteTxOutBuf: "WriteTxOutBuf t = Inr bs \<Longrightarrow> length bs = TxOut_SerializeSize t"
  by (auto simp: WriteTxOutBuf_ok TxOut_SerializeSize_def length_Address_Encode
      length_Covenant_Encode)

lemma length_write_TxOuts:
  "write_many WriteTxOutBuf ts = Inr bs \<Longrightarrow> length bs = (\<Sum>t \<leftarrow> ts. TxOut_SerializeSize t)"
  by (induction ts arbitrary: bs) (auto simp: result_simps length_WriteTxOutBuf)

lemma TxOut_SerializeSize_min: "MinTxOutPayload \<le> TxOut_SerializeSize t"
  using VarIntSerializeSize_pos [of "of_nat (length (cov_Items (to_Covenant t)))"]
  unfolding MinTxOutPayload_def TxOut_SerializeSize_def Address_SerializeSize_def
    Covenant_SerializeSize_def
  by linarith

lemma sum_TxOut_min: "MinTxOutPayload * length ts \<le> (\<Sum>t \<leftarrow> ts. TxOut_SerializeSize t)"
  using TxOut_SerializeSize_min by (induction ts) (auto intro: add_mono)

lemma length_concat_TxIns:
  "list_all valid_TxIn tis \<Longrightarrow>
    length (concat (map writeTxInBuf tis)) = (\<Sum>ti \<leftarrow> tis. TxIn_SerializeSize ti)"
  by (induction tis) (auto simp: length_writeTxInBuf)

lemma sum_TxIn_size: "(\<Sum>ti \<leftarrow> tis. TxIn_SerializeSize ti) = minTxInPayload * length tis"
  by (induction tis) (auto simp: TxIn_SerializeSize_def minTxInPayload_def)

lemma ensure_fits:
  "n * m \<le> length r \<Longrightarrow> unat count = n \<Longrightarrow> ensureElementCountFitsRemaining r count m f = Inr ()"
  by (auto simp: ensureElementCountFitsRemaining_def less_eq_div_iff_mult_less_eq)

lemma btcDecode_btcEncode:
  assumes valid: "valid_MsgTx wit slab msg" and enc: "btcEncode wit msg = Inr bs"
  shows "btcDecode wit slab (bs @ r) = Inr (msg, r)"
proof -
  let ?ins = "tx_TxIn msg" and ?outs = "tx_TxOut msg"
  let ?w = "if wit then concat (map (\<lambda>ti. TxWitness_Encode (ti_Witness ti)) ?ins) else []"
  from enc obtain obs where obs: "write_many WriteTxOutBuf ?outs = Inr obs"
    and bs: "bs = PutUint32 (tx_Version msg) @ WriteVarInt (of_nat (length ?ins))
      @ concat (map writeTxInBuf ?ins) @ WriteVarInt (of_nat (length ?outs)) @ obs
      @ PutUint32 (tx_LockTime msg) @ ?w"
    by (auto simp: btcEncode_def result_simps)
  have lim: "length ?ins \<le> maxTxInPerMessage" "length ?outs \<le> maxTxOutPerMessage"
    and okin: "list_all valid_TxIn ?ins" and okout: "list_all (\<lambda>t. is_int64 (to_Value t)) ?outs"
    using valid by (auto simp: valid_MsgTx_def)
  have nin: "unat (of_nat (length ?ins) :: u64) = length ?ins"
    using lim(1) by (intro unat_u64_of_nat)
      (simp add: maxTxInPerMessage_def MaxBlockPayload_def minTxInPayload_def)
  have nout: "unat (of_nat (length ?outs) :: u64) = length ?outs"
    using lim(2) by (intro unat_u64_of_nat)
      (simp add: maxTxOutPerMessage_def MaxBlockPayload_def MinTxOutPayload_def)
  have ins: "read_many readTxInBuf (length ?ins) (concat (map writeTxInBuf ?ins) @ x)
      = Inr (map strip ?ins, x)" for x
    using txin.read_write_many [of "map strip ?ins" _ x] okin
    by (simp add: write_many_total comp_def list_all_iff valid_TxIn_def)
  have outs: "read_many readTxOutBuf (length ?outs) (obs @ x) = Inr (?outs, x)" for x
    using txout.read_write_many [OF okout obs] .
  have fit_in: "ensureElementCountFitsRemaining (concat (map writeTxInBuf ?ins) @ x)
      (of_nat (length ?ins)) minTxInPayload f = Inr ()" for x f
    using length_concat_TxIns [OF okin] sum_TxIn_size [of ?ins]
    by (intro ensure_fits [OF _ nin]) (simp add: mult.commute)
  have fit_out: "ensureElementCountFitsRemaining (obs @ x)
      (of_nat (length ?outs)) MinTxOutPayload f = Inr ()" for x f
    using length_write_TxOuts [OF obs] sum_TxOut_min [of ?outs]
    by (intro ensure_fits [OF _ nout]) (simp add: mult.commute)
  have wits: "(if wit then readWitnesses (map strip ?ins) slab (?w @ r)
      else Inr (map strip ?ins, ?w @ r)) = Inr (?ins, r)"
  proof (cases wit)
    case True
    with valid show ?thesis by (simp add: valid_MsgTx_def readWitnesses_encoded)
  next
    case False
    with valid have "map strip ?ins = ?ins"
      by (auto simp: valid_MsgTx_def list_all_iff intro!: map_idI)
    with False show ?thesis by simp
  qed
  show ?thesis
    using lim wits
    by (simp add: btcDecode_def bs codec_simps nin nout ins outs fit_in fit_out del: map_map)
qed

lemma btcEncode_btcDecode:
  assumes "btcDecode wit slab bs = Inr (msg, r)"
  shows "valid_MsgTx wit slab msg \<and> (\<exists>cs. btcEncode wit msg = Inr cs \<and> bs = cs @ r)"
proof -
  from assms obtain vbuf inCount r0 r1 txIns r2 outCount r3 txOuts r4 lbuf r5 txIns'
    where v: "length vbuf = 4" "bs = vbuf @ r0"
    and ic: "ReadVarInt r0 = Inr (inCount, r1)" "\<not> maxTxInPerMessage < unat inCount"
    and ins: "read_many readTxInBuf (unat inCount) r1 = Inr (txIns, r2)"
    and oc: "ReadVarInt r2 = Inr (outCount, r3)" "\<not> maxTxOutPerMessage < unat outCount"
    and outs: "read_many readTxOutBuf (unat outCount) r3 = Inr (txOuts, r4)"
    and l: "length lbuf = 4" "r4 = lbuf @ r5"
    and w: "(if wit then readWitnesses txIns slab r5 else Inr (txIns, r5)) = Inr (txIns', r)"
    and msg: "msg = \<lparr>tx_Version = Uint32 vbuf, tx_TxIn = txIns', tx_TxOut = txOuts,
      tx_LockTime = Uint32 lbuf\<rparr>"
    by (auto simp: btcDecode_def result_simps split: if_splits)
  have in1: "list_all (\<lambda>ti. valid_TxIn ti \<and> ti_Witness ti = []) txIns"
    and in2: "r1 = concat (map writeTxInBuf txIns) @ r2" and in3: "length txIns = unat inCount"
    using txin.write_read_many [OF ins] read_many_length [OF ins] by (auto simp: write_many_total)
  obtain obs where out1: "list_all (\<lambda>t. is_int64 (to_Value t)) txOuts"
    and out2: "write_many WriteTxOutBuf txOuts = Inr obs" "r3 = obs @ r4"
    and out3: "length txOuts = unat outCount"
    using txout.write_read_many [OF outs] read_many_length [OF outs] by blast
  have strips: "map strip txIns = txIns"
    using in1 by (auto simp: list_all_iff intro!: map_idI)
  have w1: "map strip txIns' = txIns"
    and w2: "if wit then wits_fit slab txIns' else txIns' = txIns"
    and w3: "r5 = (if wit then concat (map (\<lambda>ti. TxWitness_Encode (ti_Witness ti)) txIns') else []) @ r"
    using w readWitnesses_canonical [of txIns slab r5 txIns' r] strips by (auto split: if_splits)
  have w4: "length txIns' = length txIns" "map writeTxInBuf txIns' = map writeTxInBuf txIns"
    using w1 by (auto simp: writeTxInBuf_def)
  have w5: "list_all valid_TxIn txIns'"
    using in1 w1 by (auto simp: list_all_iff valid_TxIn_def)
  have cnt: "of_nat (length txIns') = inCount" "of_nat (length txOuts) = outCount"
    using w4(1) in3 out3 by simp_all
  have "valid_MsgTx wit slab msg"
    using w5 w2 out1 in1 ic(2) oc(2) w4(1) in3 out3
    by (auto simp: valid_MsgTx_def msg list_all_iff not_less split: if_splits)
  moreover have "bs = vbuf @ WriteVarInt inCount @ concat (map writeTxInBuf txIns')
      @ WriteVarInt outCount @ obs @ lbuf @ r5"
    using v l in2 out2 w4 WriteVarInt_ReadVarInt [OF ic(1)] WriteVarInt_ReadVarInt [OF oc(1)]
    by simp
  ultimately show ?thesis
    using v(1) l(1) out2(1) w3 cnt by (simp add: btcEncode_def msg PutUint_Uint)
qed

lemma msgtx_codec: "canonical_codec (btcEncode wit) (btcDecode wit slab) (valid_MsgTx wit slab)"
  by unfold_locales (auto simp: btcDecode_btcEncode dest: btcEncode_btcDecode)

interpretation msgtx: canonical_codec Serialize Deserialize "valid_MsgTx True scriptSlabSize"
  unfolding Serialize_def Deserialize_def by (rule msgtx_codec)

lemma SerializeNoWitness_btcEncode: "SerializeNoWitness = btcEncode False"
  by (rule ext) (simp add: SerializeNoWitness_def btcEncode_def)

interpretation msgtx_nowit: canonical_codec SerializeNoWitness DeserializeNoWitness
    "valid_MsgTx False scriptSlabSize"
  unfolding SerializeNoWitness_btcEncode DeserializeNoWitness_def by (rule msgtx_codec)

lemma length_btcEncode:
  assumes "list_all valid_TxIn (tx_TxIn msg)" and "btcEncode wit msg = Inr bs"
  shows "length bs = (if wit then MsgTx_SerializeSize msg else MsgTx_baseSize msg)"
  using assms length_concat_TxIns [OF assms(1)]
  by (auto simp: btcEncode_def result_simps MsgTx_SerializeSize_def MsgTx_baseSize_def
      length_write_TxOuts length_concat comp_def length_TxWitness_Encode)

section \<open>Properties\<close>

text \<open>C19: Transactions are not malleable in transit: \<open>Deserialize\<close> returns a transaction exactly
  when that transaction is within the message limits and the input starts with its serialization,
  so two different byte strings never decode to the same transaction and nothing is lost or added
  by a round trip.\<close>

theorem tx_canonical:
  "Deserialize bs = Inr (tx, r) \<longleftrightarrow>
     valid_MsgTx True scriptSlabSize tx \<and> (\<exists>cs. Serialize tx = Inr cs \<and> bs = cs @ r)"
  by (rule msgtx.dec_iff)

end
