(* ===== verification/Wire_Block.thy ===== *)
theory Wire_Block
  imports Wire_Tx
begin

text \<open>
  Block headers (src/wire/blockheader.go) with the proof-of-work hash chain, and blocks
  (src/wire/msgblock.go). The header's \<open>time.Time\<close> is its Unix second. The hash functions
  (BLAKE2b of golang.org/x/crypto, SHA3) are an argument.
\<close>

section \<open>Headers\<close>

record hashers =
  blake2b256 :: "bytes \<Rightarrow> hash"
  blake2b512 :: "bytes \<Rightarrow> bytes"
  sha3_256 :: "bytes \<Rightarrow> hash"

record BlockHeader =
  bh_Version :: int
  bh_PrevBlock :: hash
  bh_MerkleRoot :: hash
  bh_Timestamp :: int
  bh_Bits :: u32
  bh_Nonce :: u32
  bh_NameRoot :: hash
  bh_ExtraNonce :: bytes
  bh_ReservedRoot :: hash
  bh_WitnessRoot :: hash
  bh_Mask :: hash

definition blockHeaderLen :: nat where
  "blockHeaderLen = 236"

definition writeBlockHeaderBuf :: "BlockHeader \<Rightarrow> bytes" where
  "writeBlockHeaderBuf bh =
     PutUint32 (bh_Nonce bh)
     @ PutUint64 (word_of_int (bh_Timestamp bh))
     @ bh_PrevBlock bh
     @ bh_NameRoot bh
     @ bh_ExtraNonce bh
     @ bh_ReservedRoot bh
     @ bh_WitnessRoot bh
     @ bh_MerkleRoot bh
     @ PutUint32 (word_of_int (bh_Version bh))
     @ PutUint32 (bh_Bits bh)
     @ bh_Mask bh"

definition readBlockHeaderBuf :: "BlockHeader reader" where
  "readBlockHeaderBuf bs =
     rbind (ReadFull 4 bs) (\<lambda>(nonce, r).
     rbind (ReadFull 8 r) (\<lambda>(tm, r).
     rbind (ReadFull HashSize r) (\<lambda>(prevBlock, r).
     rbind (ReadFull HashSize r) (\<lambda>(nameRoot, r).
     rbind (ReadFull 24 r) (\<lambda>(extraNonce, r).
     rbind (ReadFull HashSize r) (\<lambda>(reservedRoot, r).
     rbind (ReadFull HashSize r) (\<lambda>(witnessRoot, r).
     rbind (ReadFull HashSize r) (\<lambda>(merkleRoot, r).
     rbind (ReadFull 4 r) (\<lambda>(version, r).
     rbind (ReadFull 4 r) (\<lambda>(bits, r).
     rbind (ReadFull HashSize r) (\<lambda>(mask, r).
       Inr (\<lparr>bh_Version = sint (Uint32 version), bh_PrevBlock = prevBlock,
             bh_MerkleRoot = merkleRoot, bh_Timestamp = sint (Uint64 tm),
             bh_Bits = Uint32 bits, bh_Nonce = Uint32 nonce, bh_NameRoot = nameRoot,
             bh_ExtraNonce = extraNonce, bh_ReservedRoot = reservedRoot,
             bh_WitnessRoot = witnessRoot, bh_Mask = mask\<rparr>, r))))))))))))"

definition valid_header :: "BlockHeader \<Rightarrow> bool" where
  "valid_header bh \<longleftrightarrow>
     - (2 ^ 31) \<le> bh_Version bh \<and> bh_Version bh < 2 ^ 31 \<and> is_int64 (bh_Timestamp bh)
     \<and> length (bh_PrevBlock bh) = HashSize \<and> length (bh_MerkleRoot bh) = HashSize
     \<and> length (bh_NameRoot bh) = HashSize \<and> length (bh_ExtraNonce bh) = 24
     \<and> length (bh_ReservedRoot bh) = HashSize \<and> length (bh_WitnessRoot bh) = HashSize
     \<and> length (bh_Mask bh) = HashSize"

text \<open>The proof-of-work hash chain.\<close>

definition bh_padding :: "BlockHeader \<Rightarrow> nat \<Rightarrow> bytes" where
  "bh_padding h n =
     map (\<lambda>i. bh_PrevBlock h ! (i mod 32) XOR bh_NameRoot h ! (i mod 32)) [0..<n]"

definition subhead :: "BlockHeader \<Rightarrow> bytes" where
  "subhead h =
     bh_ExtraNonce h @ bh_ReservedRoot h @ bh_WitnessRoot h @ bh_MerkleRoot h
     @ PutUint32 (word_of_int (bh_Version h)) @ PutUint32 (bh_Bits h)"

definition subHash :: "hashers \<Rightarrow> BlockHeader \<Rightarrow> hash" where
  "subHash H h = blake2b256 H (subhead h)"

definition maskHash :: "hashers \<Rightarrow> BlockHeader \<Rightarrow> hash" where
  "maskHash H h = blake2b256 H (bh_PrevBlock h @ bh_Mask h)"

definition commitHash :: "hashers \<Rightarrow> BlockHeader \<Rightarrow> hash" where
  "commitHash H h = blake2b256 H (subHash H h @ maskHash H h)"

definition prehead :: "hashers \<Rightarrow> BlockHeader \<Rightarrow> bytes" where
  "prehead H h =
     PutUint32 (bh_Nonce h) @ PutUint64 (word_of_int (bh_Timestamp h)) @ bh_padding h 20
     @ bh_PrevBlock h @ bh_NameRoot h @ commitHash H h"

definition shareHash :: "hashers \<Rightarrow> BlockHeader \<Rightarrow> hash" where
  "shareHash H h =
     (let data = prehead H h;
          left = blake2b512 H data;
          right = sha3_256 H (data @ bh_padding h 8)
      in blake2b256 H (left @ bh_padding h 32 @ right))"

definition powHash :: "hashers \<Rightarrow> BlockHeader \<Rightarrow> hash" where
  "powHash H h = map2 (XOR) (shareHash H h) (bh_Mask h)"

definition BlockHash :: "hashers \<Rightarrow> BlockHeader \<Rightarrow> hash" where
  "BlockHash H h = powHash H h"

section \<open>Blocks\<close>

record MsgBlock =
  blk_Header :: BlockHeader
  blk_Transactions :: "MsgTx list"

definition minTxPayload :: nat where
  "minTxPayload = 10"

definition maxTxPerBlock :: nat where
  "maxTxPerBlock = MaxBlockPayload div minTxPayload + 1"

definition defaultTransactionAlloc :: nat where
  "defaultTransactionAlloc = 2048"

definition MsgBlock_BtcDecode :: "bool \<Rightarrow> MsgBlock reader" where
  "MsgBlock_BtcDecode witnessEncoding bs =
     rbind (readBlockHeaderBuf bs) (\<lambda>(header, r0).
     rbind (ReadVarInt r0) (\<lambda>(txCount, r1).
       if maxTxPerBlock < unat txCount then Inl (MessageError ''MsgBlock.BtcDecode'') else
     rbind (if defaultTransactionAlloc < unat txCount
            then ensureElementCountFitsRemaining r1 txCount minTxPayload ''MsgBlock.BtcDecode''
            else Inr ()) (\<lambda>_.
     rbind (read_many (btcDecode witnessEncoding scriptSlabSize) (unat txCount) r1) (\<lambda>(txs, r2).
       Inr (\<lparr>blk_Header = header, blk_Transactions = txs\<rparr>, r2)))))"

definition MsgBlock_BtcEncode :: "bool \<Rightarrow> MsgBlock \<Rightarrow> bytes result" where
  "MsgBlock_BtcEncode witnessEncoding msg =
     rbind (write_many (btcEncode witnessEncoding) (blk_Transactions msg)) (\<lambda>txs.
       Inr (writeBlockHeaderBuf (blk_Header msg)
         @ WriteVarInt (of_nat (length (blk_Transactions msg))) @ txs))"

definition MsgBlock_SerializeSize :: "MsgBlock \<Rightarrow> nat" where
  "MsgBlock_SerializeSize msg =
     blockHeaderLen + VarIntSerializeSize (of_nat (length (blk_Transactions msg)))
     + (\<Sum>tx \<leftarrow> blk_Transactions msg. MsgTx_SerializeSize tx)"

definition MsgBlock_SerializeSizeStripped :: "MsgBlock \<Rightarrow> nat" where
  "MsgBlock_SerializeSizeStripped msg =
     blockHeaderLen + VarIntSerializeSize (of_nat (length (blk_Transactions msg)))
     + (\<Sum>tx \<leftarrow> blk_Transactions msg. MsgTx_baseSize tx)"

definition valid_MsgBlock :: "bool \<Rightarrow> MsgBlock \<Rightarrow> bool" where
  "valid_MsgBlock wit msg \<longleftrightarrow>
     valid_header (blk_Header msg) \<and> length (blk_Transactions msg) \<le> maxTxPerBlock
     \<and> list_all (valid_MsgTx wit scriptSlabSize) (blk_Transactions msg)"

section \<open>Headers and blocks are canonical codecs\<close>

lemma sint_word_of_int_int32:
  "- (2 ^ 31) \<le> v \<Longrightarrow> v < 2 ^ 31 \<Longrightarrow> sint (word_of_int v :: u32) = v"
  by (simp add: sint_sbintrunc' signed_take_bit_int_eq_self)

lemma sint_int32: "- (2 ^ 31) \<le> sint (w :: u32)" "sint (w :: u32) < 2 ^ 31"
  using sint_greater_eq [of w] sint_less [of w] by simp_all

lemma length_writeBlockHeaderBuf:
  "valid_header bh \<Longrightarrow> length (writeBlockHeaderBuf bh) = blockHeaderLen"
  by (simp add: valid_header_def writeBlockHeaderBuf_def blockHeaderLen_def)

interpretation header: canonical_codec "\<lambda>bh. Inr (writeBlockHeaderBuf bh)" readBlockHeaderBuf
    valid_header
proof
  fix bh :: BlockHeader and bs r
  assume "valid_header bh" and "Inr (writeBlockHeaderBuf bh) = (Inr bs :: bytes result)"
  then show "readBlockHeaderBuf (bs @ r) = Inr (bh, r)"
    by (auto simp: valid_header_def readBlockHeaderBuf_def writeBlockHeaderBuf_def codec_simps
        sint_word_of_int_int32 sint_word_of_int_int64)
next
  fix bs :: bytes and bh :: BlockHeader and r
  assume "readBlockHeaderBuf bs = Inr (bh, r)"
  then show "valid_header bh
      \<and> (\<exists>cs. Inr (writeBlockHeaderBuf bh) = (Inr cs :: bytes result) \<and> bs = cs @ r)"
    using sint_int32
    by (auto simp: valid_header_def readBlockHeaderBuf_def writeBlockHeaderBuf_def result_simps
        PutUint_Uint is_int64_sint)
qed

lemma MsgTx_baseSize_min: "minTxPayload \<le> MsgTx_baseSize msg"
  using VarIntSerializeSize_pos [of "of_nat (length (tx_TxIn msg))"]
    VarIntSerializeSize_pos [of "of_nat (length (tx_TxOut msg))"]
  unfolding MsgTx_baseSize_def minTxPayload_def by linarith

lemma length_write_txs:
  "list_all (valid_MsgTx wit slab) txs \<Longrightarrow> write_many (btcEncode wit) txs = Inr bs \<Longrightarrow>
    length bs = (\<Sum>tx \<leftarrow> txs. if wit then MsgTx_SerializeSize tx else MsgTx_baseSize tx)
    \<and> minTxPayload * length txs \<le> length bs"
proof (induction txs arbitrary: bs)
  case (Cons tx txs)
  from Cons.prems obtain b cs where b: "btcEncode wit tx = Inr b"
    and cs: "write_many (btcEncode wit) txs = Inr cs" and bs: "bs = b @ cs"
    by (auto simp: result_simps)
  have "length b = (if wit then MsgTx_SerializeSize tx else MsgTx_baseSize tx)"
    using Cons.prems(1) b by (intro length_btcEncode) (auto simp: valid_MsgTx_def)
  moreover have "minTxPayload \<le> length b"
    using MsgTx_baseSize_min [of tx] calculation by (simp add: MsgTx_SerializeSize_def)
  ultimately show ?case using Cons.IH [OF _ cs] Cons.prems(1) bs by simp
qed simp

lemma MsgBlock_codec:
  "canonical_codec (MsgBlock_BtcEncode wit) (MsgBlock_BtcDecode wit) (valid_MsgBlock wit)"
proof
  fix msg :: MsgBlock and bs r
  assume valid: "valid_MsgBlock wit msg" and enc: "MsgBlock_BtcEncode wit msg = Inr bs"
  let ?txs = "blk_Transactions msg"
  from enc obtain tbs where tbs: "write_many (btcEncode wit) ?txs = Inr tbs"
    and bs: "bs = writeBlockHeaderBuf (blk_Header msg) @ WriteVarInt (of_nat (length ?txs)) @ tbs"
    by (auto simp: MsgBlock_BtcEncode_def result_simps)
  have lim: "length ?txs \<le> maxTxPerBlock"
    and ok: "list_all (valid_MsgTx wit scriptSlabSize) ?txs" and h: "valid_header (blk_Header msg)"
    using valid by (auto simp: valid_MsgBlock_def)
  have n: "unat (of_nat (length ?txs) :: u64) = length ?txs"
    using lim by (intro unat_u64_of_nat)
      (simp add: maxTxPerBlock_def MaxBlockPayload_def minTxPayload_def)
  have "ensureElementCountFitsRemaining (tbs @ x) (of_nat (length ?txs)) minTxPayload f = Inr ()"
    for x f
    using length_write_txs [OF ok tbs] by (intro ensure_fits [OF _ n]) (simp add: mult.commute)
  moreover have "read_many (btcDecode wit scriptSlabSize) (length ?txs) (tbs @ r) = Inr (?txs, r)"
    using codec.read_write_many [OF canonical_codec.axioms(1) [OF msgtx_codec] ok tbs] .
  ultimately show "MsgBlock_BtcDecode wit (bs @ r) = Inr (msg, r)"
    using lim h by (simp add: MsgBlock_BtcDecode_def bs header.dec_enc codec_simps n)
next
  fix bs :: bytes and msg :: MsgBlock and r
  assume "MsgBlock_BtcDecode wit bs = Inr (msg, r)"
  then obtain header r0 n r1 txs where h: "readBlockHeaderBuf bs = Inr (header, r0)"
    and n: "ReadVarInt r0 = Inr (n, r1)" "\<not> maxTxPerBlock < unat n"
    and txs: "read_many (btcDecode wit scriptSlabSize) (unat n) r1 = Inr (txs, r)"
    and msg: "msg = \<lparr>blk_Header = header, blk_Transactions = txs\<rparr>"
    by (auto simp: MsgBlock_BtcDecode_def result_simps split: if_splits)
  have 1: "list_all (valid_MsgTx wit scriptSlabSize) txs
      \<and> (\<exists>cs. write_many (btcEncode wit) txs = Inr cs \<and> r1 = cs @ r)"
    using canonical_codec.write_read_many [OF msgtx_codec txs] .
  have 2: "length txs = unat n" using read_many_length [OF txs] .
  then have "of_nat (length txs) = n" by simp
  with 1 2 n(2) header.enc_dec [OF h] WriteVarInt_ReadVarInt [OF n(1)]
  show "valid_MsgBlock wit msg \<and> (\<exists>cs. MsgBlock_BtcEncode wit msg = Inr cs \<and> bs = cs @ r)"
    by (auto simp: MsgBlock_BtcEncode_def valid_MsgBlock_def msg)
qed

interpretation msgblock: canonical_codec "MsgBlock_BtcEncode wit" "MsgBlock_BtcDecode wit"
    "valid_MsgBlock wit"
  for wit
  by (rule MsgBlock_codec)

lemma length_MsgBlock_BtcEncode:
  assumes "valid_MsgBlock wit msg" and "MsgBlock_BtcEncode wit msg = Inr bs"
  shows "length bs
    = (if wit then MsgBlock_SerializeSize msg else MsgBlock_SerializeSizeStripped msg)"
  using assms
  by (auto simp: MsgBlock_BtcEncode_def result_simps valid_MsgBlock_def length_writeBlockHeaderBuf
      MsgBlock_SerializeSize_def MsgBlock_SerializeSizeStripped_def dest!: length_write_txs)

section \<open>Properties\<close>

text \<open>C20: Blocks have one encoding, with witnesses and without: a block is decoded exactly when it
  is within the message limits and the input starts with its encoding.\<close>

theorem block_canonical:
  "MsgBlock_BtcDecode wit bs = Inr (msg, r) \<longleftrightarrow>
     valid_MsgBlock wit msg \<and> (\<exists>cs. MsgBlock_BtcEncode wit msg = Inr cs \<and> bs = cs @ r)"
  by (rule msgblock.dec_iff)

end
