(* ===== verification/Hns_Tx.thy ===== *)
theory Hns_Tx
  imports Wire_Block
begin

text \<open>
  The utility transaction (src/hnsutil/tx.go): a wire transaction with the bytes it was read
  from, if they are known. The memoised hashes are a cache of a pure function and are left out;
  what remains is that the two ways of computing each hash agree.
\<close>

record Tx =
  utx_msgTx :: MsgTx
  utx_rawBytes :: "bytes option"

definition NewTx :: "MsgTx \<Rightarrow> Tx" where
  "NewTx msgTx = \<lparr>utx_msgTx = msgTx, utx_rawBytes = None\<rparr>"

definition Tx_Hash :: "hashers \<Rightarrow> Tx \<Rightarrow> hash result" where
  "Tx_Hash H t =
     (case utx_rawBytes t of
        None \<Rightarrow> TxHash (blake2b256 H) (utx_msgTx t)
      | Some raw \<Rightarrow>
          let baseSize = MsgTx_baseSize (utx_msgTx t) in
          if length raw < baseSize then Inl (Panic ''slice bounds out of range'')
          else Inr (blake2b256 H (take baseSize raw)))"

definition Tx_WitnessHash :: "hashers \<Rightarrow> Tx \<Rightarrow> hash result" where
  "Tx_WitnessHash H t =
     (case utx_rawBytes t of
        Some raw \<Rightarrow>
          (if raw \<noteq> [] then
             rbind (Tx_Hash H t) (\<lambda>txHash.
               let baseSize = MsgTx_baseSize (utx_msgTx t);
                   witHash = blake2b256 H (drop baseSize raw)
               in Inr (blake2b256 H (txHash @ witHash)))
           else WitnessHash (blake2b256 H) (utx_msgTx t))
      | None \<Rightarrow> WitnessHash (blake2b256 H) (utx_msgTx t))"

text \<open>The raw bytes of a transaction that was read from them.\<close>

definition raw_of :: "Tx \<Rightarrow> bool" where
  "raw_of t \<longleftrightarrow> (case utx_rawBytes t of None \<Rightarrow> True | Some raw \<Rightarrow> Serialize (utx_msgTx t) = Inr raw)"

lemma Serialize_split:
  assumes "list_all valid_TxIn (tx_TxIn msg)" and "Serialize msg = Inr raw"
  shows "SerializeNoWitness msg = Inr (take (MsgTx_baseSize msg) raw)"
    and "drop (MsgTx_baseSize msg) raw
      = concat (map (\<lambda>ti. TxWitness_Encode (ti_Witness ti)) (tx_TxIn msg))"
    and "MsgTx_baseSize msg \<le> length raw"
proof -
  from assms(2) obtain b where b: "SerializeNoWitness msg = Inr b"
    and raw: "raw = b @ concat (map (\<lambda>ti. TxWitness_Encode (ti_Witness ti)) (tx_TxIn msg))"
    by (auto simp: Serialize_def btcEncode_def SerializeNoWitness_def result_simps)
  have "length b = MsgTx_baseSize msg"
    using length_btcEncode [OF assms(1), of False b] b by (simp add: SerializeNoWitness_btcEncode)
  with b raw show "SerializeNoWitness msg = Inr (take (MsgTx_baseSize msg) raw)"
    and "drop (MsgTx_baseSize msg) raw
      = concat (map (\<lambda>ti. TxWitness_Encode (ti_Witness ti)) (tx_TxIn msg))"
    and "MsgTx_baseSize msg \<le> length raw"
    by simp_all
qed

lemma Tx_Hash_raw:
  assumes "list_all valid_TxIn (tx_TxIn (utx_msgTx t))" and "raw_of t"
  shows "Tx_Hash H t = TxHash (blake2b256 H) (utx_msgTx t)"
  using assms Serialize_split [OF assms(1)]
  by (auto simp: Tx_Hash_def TxHash_def raw_of_def Let_def split: option.splits)

lemma Tx_WitnessHash_raw:
  assumes "list_all valid_TxIn (tx_TxIn (utx_msgTx t))" and "raw_of t"
  shows "Tx_WitnessHash H t = WitnessHash (blake2b256 H) (utx_msgTx t)"
  using assms Serialize_split(2) [OF assms(1)]
  by (auto simp: Tx_WitnessHash_def WitnessHash_def Tx_Hash_raw [OF assms] raw_of_def Let_def
      split: option.splits)

section \<open>Coinbase transactions\<close>

definition isNullOutpoint :: "OutPoint \<Rightarrow> bool" where
  "isNullOutpoint op \<longleftrightarrow> op_Index op = 0xffffffff \<and> op_Hash op = zeroHash"

definition IsCoinBaseTx :: "MsgTx \<Rightarrow> bool" where
  "IsCoinBaseTx msgTx =
     (case tx_TxIn msgTx of [] \<Rightarrow> False | ti # _ \<Rightarrow> isNullOutpoint (ti_PreviousOutPoint ti))"

definition IsCoinBase :: "Tx \<Rightarrow> bool" where
  "IsCoinBase tx = IsCoinBaseTx (utx_msgTx tx)"

section \<open>Properties\<close>

text \<open>C21: For a transaction that carries the bytes it was read from, hashing a slice of those bytes
  gives the same transaction hash and the same witness hash as serializing the transaction again,
  and the slice is always in range.\<close>

theorem raw_hashes_agree:
  assumes "Deserialize bs = Inr (msg, [])"
  shows "Tx_Hash H \<lparr>utx_msgTx = msg, utx_rawBytes = Some bs\<rparr> = TxHash (blake2b256 H) msg
    \<and> Tx_WitnessHash H \<lparr>utx_msgTx = msg, utx_rawBytes = Some bs\<rparr> = WitnessHash (blake2b256 H) msg"
proof -
  have "list_all valid_TxIn (tx_TxIn msg)" "Serialize msg = Inr bs"
    using msgtx.enc_dec [OF assms] by (auto simp: valid_MsgTx_def)
  then show ?thesis
    by (simp add: Tx_Hash_raw Tx_WitnessHash_raw raw_of_def)
qed

definition tinyMsg :: MsgTx where
  "tinyMsg = \<lparr>tx_Version = 7,
     tx_TxIn = [\<lparr>ti_PreviousOutPoint = \<lparr>op_Hash = replicate 32 5, op_Index = 0\<rparr>, ti_Sequence = 1,
                  ti_Witness = [[6, 6]]\<rparr>],
     tx_TxOut = [\<lparr>to_Value = 9, to_Address = \<lparr>addr_Version = 0, addr_Hash = replicate 20 8\<rparr>,
                   to_Covenant = \<lparr>cov_Type = CovenantNone, cov_Items = []\<rparr>\<rparr>],
     tx_LockTime = 0\<rparr>"

definition tinyTx :: bytes where
  "tinyTx = [7, 0, 0, 0] @ [1] @ replicate 32 5 @ [0, 0, 0, 0] @ [1, 0, 0, 0]
     @ [1] @ [9, 0, 0, 0, 0, 0, 0, 0] @ [0, 20] @ replicate 20 8 @ [0, 0] @ [0, 0, 0, 0]
     @ [1, 2, 6, 6]"

theorem raw_hashes_agree_witness:
  "Tx_Hash \<lparr>blake2b256 = take 32, blake2b512 = take 64, sha3_256 = take 32\<rparr>
     \<lparr>utx_msgTx = tinyMsg, utx_rawBytes = Some tinyTx\<rparr> = TxHash (take 32) tinyMsg"
proof -
  have "valid_MsgTx True scriptSlabSize tinyMsg"
    by (simp add: valid_MsgTx_def tinyMsg_def valid_TxIn_def is_int64_def maxTxInPerMessage_def
        maxTxOutPerMessage_def MaxBlockPayload_def minTxInPayload_def MinTxOutPayload_def
        scriptSlabSize_def maxWitnessItemsPerInput_def maxWitnessItemSize_def)
  moreover have "Serialize tinyMsg = Inr tinyTx" by code_simp
  ultimately have "Deserialize tinyTx = Inr (tinyMsg, [])"
    using msgtx.dec_enc [of tinyMsg tinyTx "[]"] by simp
  then show ?thesis
    using raw_hashes_agree [of tinyTx tinyMsg
        "\<lparr>blake2b256 = take 32, blake2b512 = take 64, sha3_256 = take 32\<rparr>"] by simp
qed

end
