(* ===== verification/Name_State.thy ===== *)
theory Name_State
  imports Hns_Tx
begin

text \<open>
  The state of a name (src/blockchain/names.go): its record, the auction phases as a function of
  the height, expiry, and the syntax of names. Heights and periods are \<open>uint32\<close> and their sums
  wrap, as in the source; the theorems that speak of time say which values are below the wrap
  (\<open>small_params\<close>, heights below $2^{31}$, the range of the block height type \<open>int32\<close>).
\<close>

section \<open>Chain parameters\<close>

record Params =
  NameAuctionStart :: u32
  NameRolloutInterval :: u32
  NameLockupPeriod :: u32
  NameRenewalWindow :: u32
  NameRenewalPeriod :: u32
  NameRenewalMaturity :: u32
  NameClaimPeriod :: u32
  NameAlexaLockup :: u32
  NameClaimFrequency :: u32
  NameBiddingPeriod :: u32
  NameRevealPeriod :: u32
  NameTreeInterval :: u32
  NameTransferLockup :: u32
  NameAuctionMaturity :: u32
  NameDeflationHeight :: u32
  NameNoRollout :: bool
  NameNoReserved :: bool


definition RegressionNetParams :: Params where
  "RegressionNetParams = \<lparr>NameAuctionStart = 0, NameRolloutInterval = 2, NameLockupPeriod = 2,
     NameRenewalWindow = 5000, NameRenewalPeriod = 2500, NameRenewalMaturity = 50,
     NameClaimPeriod = 250000, NameAlexaLockup = 500000, NameClaimFrequency = 0,
     NameBiddingPeriod = 5, NameRevealPeriod = 10, NameTreeInterval = 5,
     NameTransferLockup = 10, NameAuctionMaturity = 65, NameDeflationHeight = 200,
     NameNoRollout = False, NameNoReserved = False\<rparr>"

section \<open>The state record\<close>

datatype nameStateKind =
    nameStateOpening
  | nameStateLocked
  | nameStateBidding
  | nameStateReveal
  | nameStateClosed
  | nameStateRevoked

fun kind_code :: "nameStateKind \<Rightarrow> nat" where
  "kind_code nameStateOpening = 0"
| "kind_code nameStateLocked = 1"
| "kind_code nameStateBidding = 2"
| "kind_code nameStateReveal = 3"
| "kind_code nameStateClosed = 4"
| "kind_code nameStateRevoked = 5"

lemma kind_code_inject: "kind_code a = kind_code b \<Longrightarrow> a = b"
  by (cases a; cases b) auto

instantiation nameStateKind :: linorder
begin

definition less_eq_nameStateKind :: "nameStateKind \<Rightarrow> nameStateKind \<Rightarrow> bool" where
  "a \<le> b \<longleftrightarrow> kind_code a \<le> kind_code b"

definition less_nameStateKind :: "nameStateKind \<Rightarrow> nameStateKind \<Rightarrow> bool" where
  "a < b \<longleftrightarrow> kind_code a < kind_code b"

instance
  by standard (auto simp: less_eq_nameStateKind_def less_nameStateKind_def dest: kind_code_inject)

end

record nameState =
  ns_nameHash :: hash
  ns_name :: bytes
  ns_height :: u32
  ns_renewal :: u32
  ns_owner :: OutPoint
  ns_value :: int
  ns_highest :: int
  ns_data :: bytes
  ns_transfer :: u32
  ns_revoked :: u32
  ns_claimed :: u32
  ns_renewals :: u32
  ns_registered :: bool
  ns_expired :: bool
  ns_weak :: bool

definition maxNameSize :: nat where
  "maxNameSize = 63"

definition maxResourceSize :: nat where
  "maxResourceSize = 512"

definition nullNameOwner :: OutPoint where
  "nullNameOwner = \<lparr>op_Hash = zeroHash, op_Index = 0xffffffff\<rparr>"

definition isNullNameOwner :: "OutPoint \<Rightarrow> bool" where
  "isNullNameOwner ow \<longleftrightarrow> op_Hash ow = zeroHash \<and> op_Index ow = 0xffffffff"

definition newNameState :: "hash \<Rightarrow> nameState" where
  "newNameState nameHash = \<lparr>ns_nameHash = nameHash, ns_name = [], ns_height = 0, ns_renewal = 0,
     ns_owner = nullNameOwner, ns_value = 0, ns_highest = 0, ns_data = [], ns_transfer = 0,
     ns_revoked = 0, ns_claimed = 0, ns_renewals = 0, ns_registered = False, ns_expired = False,
     ns_weak = False\<rparr>"

definition isNull :: "nameState \<Rightarrow> bool" where
  "isNull ns \<longleftrightarrow>
     ns_height ns = 0 \<and> ns_renewal ns = 0 \<and> isNullNameOwner (ns_owner ns) \<and> ns_value ns = 0
     \<and> ns_highest ns = 0 \<and> length (ns_data ns) = 0 \<and> ns_transfer ns = 0 \<and> ns_revoked ns = 0
     \<and> ns_claimed ns = 0 \<and> ns_renewals ns = 0 \<and> \<not> ns_registered ns \<and> \<not> ns_expired ns
     \<and> \<not> ns_weak ns"

definition ns_reset :: "u32 \<Rightarrow> nameState \<Rightarrow> nameState" where
  "ns_reset height ns = ns\<lparr>ns_height := height, ns_renewal := height, ns_owner := nullNameOwner,
     ns_value := 0, ns_highest := 0, ns_data := [], ns_transfer := 0, ns_revoked := 0,
     ns_claimed := 0, ns_renewals := 0, ns_registered := False, ns_expired := False,
     ns_weak := False\<rparr>"

definition ns_set :: "bytes \<Rightarrow> u32 \<Rightarrow> nameState \<Rightarrow> nameState" where
  "ns_set name height ns = ns_reset height (ns\<lparr>ns_name := name\<rparr>)"

section \<open>Phases and expiry\<close>

definition ns_state :: "nameState \<Rightarrow> u32 \<Rightarrow> Params \<Rightarrow> nameStateKind" where
  "ns_state ns height params =
     (let openPeriod = NameTreeInterval params + 1 in
      if ns_revoked ns \<noteq> 0 then nameStateRevoked
      else if ns_claimed ns \<noteq> 0 then
        (if height < ns_height ns + NameLockupPeriod params then nameStateLocked else nameStateClosed)
      else if height < ns_height ns + openPeriod then nameStateOpening
      else if height < ns_height ns + openPeriod + NameBiddingPeriod params then nameStateBidding
      else if height < ns_height ns + openPeriod + NameBiddingPeriod params + NameRevealPeriod params
        then nameStateReveal
      else nameStateClosed)"

definition isClosed :: "nameState \<Rightarrow> u32 \<Rightarrow> Params \<Rightarrow> bool" where
  "isClosed ns height params \<longleftrightarrow> ns_state ns height params = nameStateClosed"

definition isClaimable :: "nameState \<Rightarrow> u32 \<Rightarrow> Params \<Rightarrow> bool" where
  "isClaimable ns height params \<longleftrightarrow>
     ns_claimed ns \<noteq> 0 \<and> \<not> NameNoReserved params \<and> height < NameClaimPeriod params"

definition isExpired :: "nameState \<Rightarrow> u32 \<Rightarrow> Params \<Rightarrow> bool" where
  "isExpired ns height params =
     (if ns_revoked ns \<noteq> 0 then height \<ge> ns_revoked ns + NameAuctionMaturity params
      else if \<not> isClosed ns height params then False
      else if isClaimable ns height params then False
      else if height \<ge> ns_renewal ns + NameRenewalWindow params then True
      else isNullNameOwner (ns_owner ns))"

definition maybeExpire :: "u32 \<Rightarrow> Params \<Rightarrow> nameState \<Rightarrow> nameState" where
  "maybeExpire height params ns =
     (if \<not> isExpired ns height params then ns
      else (ns_reset height ns)\<lparr>ns_expired := True, ns_data := ns_data ns\<rparr>)"

definition inAuction :: "nameState \<Rightarrow> u32 \<Rightarrow> Params \<Rightarrow> bool" where
  "inAuction ns height params =
     (if isExpired ns height params then False
      else (case ns_state ns height params of
              nameStateOpening \<Rightarrow> True | nameStateBidding \<Rightarrow> True | nameStateReveal \<Rightarrow> True
            | _ \<Rightarrow> False))"

definition addUint32Saturating :: "u32 \<Rightarrow> u32 \<Rightarrow> u32" where
  "addUint32Saturating val delta = (if 0xffffffff - val < delta then 0xffffffff else val + delta)"

definition expiresBy :: "nameState \<Rightarrow> u32 \<Rightarrow> u32 \<Rightarrow> Params \<Rightarrow> bool" where
  "expiresBy ns height within params =
     (if isExpired ns height params then False
      else
        let deadline = addUint32Saturating height within in
        if ns_revoked ns \<noteq> 0
        then addUint32Saturating (ns_revoked ns) (NameAuctionMaturity params) \<le> deadline
        else if \<not> isClosed ns height params \<or> isClaimable ns height params
             \<or> isNullNameOwner (ns_owner ns)
        then False
        else addUint32Saturating (ns_renewal ns) (NameRenewalWindow params) \<le> deadline)"

section \<open>Names\<close>

definition ascii :: "string \<Rightarrow> bytes" where
  "ascii s = map (\<lambda>c. of_nat (of_char c)) s"

definition nameBlacklist :: "bytes list" where
  "nameBlacklist = map ascii [''example'', ''invalid'', ''local'', ''localhost'', ''test'']"

definition verifyNameChar :: "nat \<Rightarrow> nat \<Rightarrow> byte \<Rightarrow> bool" where
  "verifyNameChar n i ch =
     (if 0x30 \<le> ch \<and> ch \<le> 0x39 then True
      else if 0x61 \<le> ch \<and> ch \<le> 0x7a then True
      else if ch = 0x2d \<or> ch = 0x5f then \<not> (i = 0 \<or> i = n - 1)
      else False)"

definition verifyName :: "bytes \<Rightarrow> bool" where
  "verifyName name =
     (if length name = 0 \<or> length name > maxNameSize then False
      else if \<not> list_all (\<lambda>(i, ch). verifyNameChar (length name) i ch) (enumerate 0 name) then False
      else \<not> name \<in> set nameBlacklist)"

definition hashName :: "hashers \<Rightarrow> bytes \<Rightarrow> hash" where
  "hashName H name = sha3_256 H name"

section \<open>Time does not wrap\<close>

definition small_params :: "Params \<Rightarrow> bool" where
  "small_params p \<longleftrightarrow>
     unat (NameTreeInterval p) < 2 ^ 24 \<and> unat (NameLockupPeriod p) < 2 ^ 24
     \<and> unat (NameBiddingPeriod p) < 2 ^ 24 \<and> unat (NameRevealPeriod p) < 2 ^ 24
     \<and> unat (NameRenewalWindow p) < 2 ^ 24 \<and> unat (NameAuctionMaturity p) < 2 ^ 24
     \<and> unat (NameTransferLockup p) < 2 ^ 24 \<and> unat (NameClaimPeriod p) < 2 ^ 24"


lemma small_RegressionNetParams: "small_params RegressionNetParams"
  by (simp add: small_params_def RegressionNetParams_def)

lemma unat_add_u32:
  "unat a + unat b < 2 ^ 32 \<Longrightarrow> unat (a + b :: u32) = unat a + unat b"
  by (simp add: unat_word_ariths)

definition early :: "u32 \<Rightarrow> bool" where
  "early h \<longleftrightarrow> unat h < 2 ^ 31"

lemma unat_open_sums:
  assumes "small_params p" and "early h"
  shows "unat (h + (NameTreeInterval p + 1)) = unat h + unat (NameTreeInterval p) + 1"
    and "unat (h + (NameTreeInterval p + 1) + NameBiddingPeriod p)
      = unat h + unat (NameTreeInterval p) + 1 + unat (NameBiddingPeriod p)"
    and "unat (h + (NameTreeInterval p + 1) + NameBiddingPeriod p + NameRevealPeriod p)
      = unat h + unat (NameTreeInterval p) + 1 + unat (NameBiddingPeriod p)
        + unat (NameRevealPeriod p)"
    and "unat (h + NameLockupPeriod p) = unat h + unat (NameLockupPeriod p)"
    and "unat (h + NameRenewalWindow p) = unat h + unat (NameRenewalWindow p)"
    and "unat (h + NameAuctionMaturity p) = unat h + unat (NameAuctionMaturity p)"
  using assms by (simp_all add: small_params_def early_def unat_add_u32)

lemmas time_simps = ns_state_def Let_def word_less_nat_alt word_le_nat_alt


lemma isClosed_mono:
  assumes "small_params p" and "early (ns_height ns)" and "h \<le> h'" and "isClosed ns h p"
  shows "isClosed ns h' p"
  using assms(3,4) by (auto simp: isClosed_def time_simps unat_open_sums [OF assms(1,2)] split: if_splits)

lemma isClaimable_antimono: "h \<le> h' \<Longrightarrow> isClaimable ns h' p \<Longrightarrow> isClaimable ns h p"
  by (auto simp: isClaimable_def)

lemma addUint32Saturating_exact:
  "unat a + unat b < 2 ^ 32 \<Longrightarrow> addUint32Saturating a b = a + b"
  by (auto simp: addUint32Saturating_def word_less_nat_alt unat_sub_if')

lemma ns_state_reset:
  assumes "small_params p" and "early h"
  shows "ns_state (ns_reset h ns) h p = nameStateOpening"
  using assms by (simp add: ns_reset_def time_simps unat_open_sums [OF assms])

lemma maybeExpire_not_expired:
  assumes "small_params p" and "early h"
  shows "\<not> isExpired (maybeExpire h p ns) h p"
  using assms by (simp add: maybeExpire_def isExpired_def isClosed_def ns_reset_def
      time_simps unat_open_sums [OF assms])

section \<open>Properties\<close>



lemma isExpired_held:
  assumes "small_params p" and "early (ns_height ns)" and "h \<le> h'"
    and "ns_revoked ns = 0" and "isClosed ns h p" and "\<not> isClaimable ns h p"
    and "\<not> isNullNameOwner (ns_owner ns)"
  shows "isExpired ns h' p \<longleftrightarrow> ns_renewal ns + NameRenewalWindow p \<le> h'"
  using isClosed_mono [OF assms(1,2,3,5)] isClaimable_antimono [OF assms(3), of ns p] assms(4,6,7)
  by (auto simp: isExpired_def)

text \<open>C18: For a name that is revoked, or closed with an owner and past the claim period, the expiry
  warning is exact: the name expires within the window if and only if it is not expired now and is
  expired at the end of the window.\<close>

theorem expiresBy_exact:
  assumes "small_params p" and "early (ns_height ns)" and "early (ns_renewal ns)"
    and "early (ns_revoked ns)" and "unat h + unat w < 2 ^ 31"
    and "ns_revoked ns \<noteq> 0 \<or> (isClosed ns h p \<and> \<not> isClaimable ns h p \<and> \<not> isNullNameOwner (ns_owner ns))"
  shows "expiresBy ns h w p \<longleftrightarrow> \<not> isExpired ns h p \<and> isExpired ns (h + w) p"
proof -
  have hw: "unat (h + w) = unat h + unat w" "addUint32Saturating h w = h + w"
    using assms(5) by (simp_all add: unat_add_u32 addUint32Saturating_exact)
  have le: "h \<le> h + w"
    by (simp add: word_le_nat_alt hw(1))
  have sat: "addUint32Saturating (ns_revoked ns) (NameAuctionMaturity p) = ns_revoked ns + NameAuctionMaturity p"
    "addUint32Saturating (ns_renewal ns) (NameRenewalWindow p) = ns_renewal ns + NameRenewalWindow p"
    using assms(1,3,4) by (simp_all add: addUint32Saturating_exact small_params_def early_def)
  show ?thesis
  proof (cases "ns_revoked ns = 0")
    case True
    with assms(6) isExpired_held [OF assms(1,2) le True] isExpired_held [OF assms(1,2) order_refl True]
    show ?thesis by (auto simp: expiresBy_def Let_def hw(2) sat)
  next
    case False
    then show ?thesis by (simp add: expiresBy_def isExpired_def Let_def hw(2) sat)
  qed
qed

definition sampleName :: nameState where
  "sampleName = (newNameState zeroHash)\<lparr>ns_height := 1, ns_renewal := 50,
     ns_owner := \<lparr>op_Hash = zeroHash, op_Index = 0\<rparr>\<rparr>"

theorem expiresBy_exact_witness:
  "expiresBy sampleName 5000 60 RegressionNetParams
   = (\<not> isExpired sampleName 5000 RegressionNetParams
      \<and> isExpired sampleName (5000 + 60) RegressionNetParams)"
proof (rule expiresBy_exact)
  show "ns_revoked sampleName \<noteq> 0 \<or>
    (isClosed sampleName 5000 RegressionNetParams \<and> \<not> isClaimable sampleName 5000 RegressionNetParams
     \<and> \<not> isNullNameOwner (ns_owner sampleName))"
    by code_simp
qed (simp_all add: small_RegressionNetParams early_def newNameState_def sampleName_def)

text \<open>
  The warning is silent for a name whose auction ends without a bid inside the window, although
  such a name is expired at the end of the window.
\<close>

lemma expiresBy_misses_unsold:
  "\<exists>ns. \<not> isExpired ns 20 RegressionNetParams \<and> isExpired ns (20 + 5) RegressionNetParams
     \<and> \<not> expiresBy ns 20 5 RegressionNetParams"
proof (intro exI conjI)
  let ?ns = "(newNameState zeroHash)\<lparr>ns_height := 1, ns_renewal := 1\<rparr>"
  show "\<not> isExpired ?ns 20 RegressionNetParams" by code_simp
  show "isExpired ?ns (20 + 5) RegressionNetParams" by code_simp
  show "\<not> expiresBy ?ns 20 5 RegressionNetParams" by code_simp
qed

end
