(* ===== verification/Name_Codec.thy ===== *)
theory Name_Codec
  imports Name_State
begin

text \<open>
  The persisted form of a name state (src/blockchain/names.go, \<open>encode\<close> and
  \<open>decodeNameState\<close>). The decoder's \<open>offset\<close> into the serialized slice is the suffix that is
  still unread. A state within the size limits survives the round trip, so its encoding
  determines it.
\<close>

section \<open>Encoding\<close>

definition nameField :: "nameState \<Rightarrow> u16" where
  "nameField ns =
     (if \<not> isNullNameOwner (ns_owner ns) then 1 else 0)
     OR (if ns_value ns \<noteq> 0 then 2 else 0)
     OR (if ns_highest ns \<noteq> 0 then 4 else 0)
     OR (if ns_transfer ns \<noteq> 0 then 8 else 0)
     OR (if ns_revoked ns \<noteq> 0 then 16 else 0)
     OR (if ns_claimed ns \<noteq> 0 then 32 else 0)
     OR (if ns_renewals ns \<noteq> 0 then 64 else 0)
     OR (if ns_registered ns then 128 else 0)
     OR (if ns_expired ns then 256 else 0)
     OR (if ns_weak ns then 512 else 0)"

definition encodeNameState :: "nameState \<Rightarrow> bytes result" where
  "encodeNameState ns =
     (if length (ns_name ns) > maxNameSize then Inl (OtherError ''name length exceeds max'')
      else if length (ns_data ns) > maxResourceSize
        then Inl (OtherError ''name resource length exceeds max'')
      else if ns_value ns < 0 \<or> ns_highest ns < 0
        then Inl (OtherError ''name values must be non-negative'')
      else
        let field = nameField ns in
        Inr ([of_nat (length (ns_name ns))] @ ns_name ns
          @ PutUint16 (of_nat (length (ns_data ns))) @ ns_data ns
          @ PutUint32 (ns_height ns) @ PutUint32 (ns_renewal ns) @ PutUint16 field
          @ (if field AND 1 \<noteq> 0
             then op_Hash (ns_owner ns) @ WriteVarInt (ucast (op_Index (ns_owner ns))) else [])
          @ (if field AND 2 \<noteq> 0 then WriteVarInt (word_of_int (ns_value ns)) else [])
          @ (if field AND 4 \<noteq> 0 then WriteVarInt (word_of_int (ns_highest ns)) else [])
          @ (if field AND 8 \<noteq> 0 then PutUint32 (ns_transfer ns) else [])
          @ (if field AND 16 \<noteq> 0 then PutUint32 (ns_revoked ns) else [])
          @ (if field AND 32 \<noteq> 0 then PutUint32 (ns_claimed ns) else [])
          @ (if field AND 64 \<noteq> 0 then WriteVarInt (ucast (ns_renewals ns)) else [])))"

section \<open>Decoding\<close>

text \<open>The optional fields, each read when its bit of \<open>field\<close> is set.\<close>

definition need :: "nat \<Rightarrow> bytes \<Rightarrow> unit result" where
  "need n rest =
     (if length rest < n then Inl (DeserializeError ''truncated name state'') else Inr ())"

definition readNameVarInt :: "u64 reader" where
  "readNameVarInt rest = ReadVarInt rest"

definition readOwner :: "u16 \<Rightarrow> OutPoint reader" where
  "readOwner field rest =
     (if field AND 1 \<noteq> 0 then
        rbind (need HashSize rest) (\<lambda>_.
        rbind (readNameVarInt (drop HashSize rest)) (\<lambda>(index, rest').
          if unat index > MaxUint32
          then Inl (DeserializeError ''name owner index overflows uint32'')
          else Inr (\<lparr>op_Hash = take HashSize rest, op_Index = ucast index\<rparr>, rest')))
      else Inr (nullNameOwner, rest))"

definition readAmount :: "bool \<Rightarrow> string \<Rightarrow> int reader" where
  "readAmount present err rest =
     (if present then
        rbind (readNameVarInt rest) (\<lambda>(v, rest').
          if unat v > 2 ^ 63 - 1 then Inl (DeserializeError err) else Inr (sint v, rest'))
      else Inr (0, rest))"

definition readHeight :: "bool \<Rightarrow> u32 reader" where
  "readHeight present rest =
     (if present then
        rbind (need 4 rest) (\<lambda>_. Inr (Uint32 (take 4 rest), drop 4 rest))
      else Inr (0, rest))"

definition readRenewals :: "bool \<Rightarrow> u32 reader" where
  "readRenewals present rest =
     (if present then
        rbind (readNameVarInt rest) (\<lambda>(v, rest').
          if unat v > MaxUint32
          then Inl (DeserializeError ''name renewals overflow uint32'')
          else Inr (ucast v, rest'))
      else Inr (0, rest))"

definition decodeNameState :: "hash \<Rightarrow> bytes \<Rightarrow> nameState result" where
  "decodeNameState nameHash serialized =
     (if length serialized < 1 then Inl (DeserializeError ''missing name length'') else
      let nameLen = unat (hd serialized); rest = tl serialized in
      if nameLen > maxNameSize \<or> length rest < nameLen + 2
      then Inl (DeserializeError ''corrupt name state name'') else
      let name = take nameLen rest; rest = drop nameLen rest;
          dataLen = unat (Uint16 (take 2 rest)); rest = drop 2 rest in
      if dataLen > maxResourceSize \<or> length rest < dataLen + 10
      then Inl (DeserializeError ''corrupt name state data'') else
      let data = take dataLen rest; rest = drop dataLen rest;
          height = Uint32 (take 4 rest); rest = drop 4 rest;
          renewal = Uint32 (take 4 rest); rest = drop 4 rest;
          field = Uint16 (take 2 rest); rest = drop 2 rest in
      rbind (readOwner field rest) (\<lambda>(ow, rest).
      rbind (readAmount (field AND 2 \<noteq> 0) ''name value overflows int64'' rest) (\<lambda>(val, rest).
      rbind (readAmount (field AND 4 \<noteq> 0) ''name highest overflows int64'' rest) (\<lambda>(hi, rest).
      rbind (readHeight (field AND 8 \<noteq> 0) rest) (\<lambda>(tr, rest).
      rbind (readHeight (field AND 16 \<noteq> 0) rest) (\<lambda>(rv, rest).
      rbind (readHeight (field AND 32 \<noteq> 0) rest) (\<lambda>(cl, rest).
      rbind (readRenewals (field AND 64 \<noteq> 0) rest) (\<lambda>(rn, rest).
        if rest \<noteq> [] then Inl (DeserializeError ''trailing bytes in name state'')
        else Inr \<lparr>ns_nameHash = nameHash, ns_name = name, ns_height = height,
          ns_renewal = renewal, ns_owner = ow, ns_value = val, ns_highest = hi, ns_data = data,
          ns_transfer = tr, ns_revoked = rv, ns_claimed = cl, ns_renewals = rn,
          ns_registered = (field AND 128 \<noteq> 0), ns_expired = (field AND 256 \<noteq> 0),
          ns_weak = (field AND 512 \<noteq> 0)\<rparr>))))))))"

section \<open>Round trip\<close>

text \<open>The well-formed states: what the fixed-size Go types and the consensus limits guarantee.\<close>

definition wf_state :: "nameState \<Rightarrow> bool" where
  "wf_state ns \<longleftrightarrow>
     length (ns_nameHash ns) = HashSize \<and> length (op_Hash (ns_owner ns)) = HashSize
     \<and> is_int64 (ns_value ns) \<and> is_int64 (ns_highest ns)"

definition storable :: "nameState \<Rightarrow> bool" where
  "storable ns \<longleftrightarrow>
     wf_state ns \<and> length (ns_name ns) \<le> maxNameSize \<and> length (ns_data ns) \<le> maxResourceSize
     \<and> 0 \<le> ns_value ns \<and> 0 \<le> ns_highest ns"

lemma nameField_bits:
  "nameField ns AND 1 \<noteq> 0 \<longleftrightarrow> \<not> isNullNameOwner (ns_owner ns)"
  "nameField ns AND 2 \<noteq> 0 \<longleftrightarrow> ns_value ns \<noteq> 0"
  "nameField ns AND 4 \<noteq> 0 \<longleftrightarrow> ns_highest ns \<noteq> 0"
  "nameField ns AND 8 \<noteq> 0 \<longleftrightarrow> ns_transfer ns \<noteq> 0"
  "nameField ns AND 16 \<noteq> 0 \<longleftrightarrow> ns_revoked ns \<noteq> 0"
  "nameField ns AND 32 \<noteq> 0 \<longleftrightarrow> ns_claimed ns \<noteq> 0"
  "nameField ns AND 64 \<noteq> 0 \<longleftrightarrow> ns_renewals ns \<noteq> 0"
  "nameField ns AND 128 \<noteq> 0 \<longleftrightarrow> ns_registered ns"
  "nameField ns AND 256 \<noteq> 0 \<longleftrightarrow> ns_expired ns"
  "nameField ns AND 512 \<noteq> 0 \<longleftrightarrow> ns_weak ns"
  by (simp_all add: nameField_def bit.conj_disj_distrib2)

lemma readOwner_encoded:
  assumes "length (op_Hash ow) = HashSize" and "(field AND 1 \<noteq> 0) = (\<not> isNullNameOwner ow)"
  shows "readOwner field ((if \<not> isNullNameOwner ow then op_Hash ow @ WriteVarInt (ucast (op_Index ow))
      else []) @ r) = Inr (ow, r)"
proof -
  have "unat (op_Index ow) \<le> MaxUint32"
    using unat_less [of "op_Index ow"] by (simp add: MaxUint32_def)
  with assms show ?thesis
    by (auto simp: readOwner_def need_def readNameVarInt_def codec_simps unat_ucast_widen
        ucast_widen_narrow isNullNameOwner_def nullNameOwner_def)
qed

lemma unat_word_of_int_pos:
  assumes "is_int64 v" and "0 \<le> v"
  shows "unat (word_of_int v :: u64) < 2 ^ 63" "sint (word_of_int v :: u64) = v"
  using assms sint_word_of_int_int64 [of v]
  by (simp_all add: is_int64_def unsigned_of_int take_bit_int_eq_self nat_less_iff)

lemma readAmount_encoded:
  assumes "is_int64 v" and "0 \<le> v"
  shows "readAmount (v \<noteq> 0) err ((if v \<noteq> 0 then WriteVarInt (word_of_int v) else []) @ r) = Inr (v, r)"
  using unat_word_of_int_pos [OF assms]
  by (auto simp: readAmount_def readNameVarInt_def codec_simps)

lemma readHeight_encoded:
  "readHeight (v \<noteq> 0) ((if v \<noteq> 0 then PutUint32 v else []) @ r) = Inr (v, r)"
  by (simp add: readHeight_def need_def)

lemma readRenewals_encoded:
  "readRenewals (v \<noteq> 0) ((if v \<noteq> 0 then WriteVarInt (ucast v) else []) @ r) = Inr (v, r)"
proof -
  have "unat v \<le> MaxUint32"
    using unat_less [of v] by (simp add: MaxUint32_def)
  then show ?thesis
    by (simp add: readRenewals_def readNameVarInt_def codec_simps unat_ucast_widen
        ucast_widen_narrow)
qed

lemma encodeNameState_ok:
  "(\<exists>bs. encodeNameState ns = Inr bs) \<longleftrightarrow>
     length (ns_name ns) \<le> maxNameSize \<and> length (ns_data ns) \<le> maxResourceSize
     \<and> 0 \<le> ns_value ns \<and> 0 \<le> ns_highest ns"
  by (auto simp: encodeNameState_def Let_def)

lemma storable_encodes: "storable ns \<Longrightarrow> \<exists>bs. encodeNameState ns = Inr bs"
  by (simp add: encodeNameState_ok storable_def)

lemma decode_encodeNameState:
  assumes wf: "wf_state ns" and enc: "encodeNameState ns = Inr bs"
  shows "decodeNameState (ns_nameHash ns) bs = Inr ns"
proof -
  have lim: "length (ns_name ns) \<le> 63" "length (ns_data ns) \<le> 512"
    "0 \<le> ns_value ns" "0 \<le> ns_highest ns"
    using enc encodeNameState_ok [of ns] by (auto simp: maxNameSize_def maxResourceSize_def)
  have n: "unat (of_nat (length (ns_name ns)) :: byte) = length (ns_name ns)"
    using lim(1) by (intro unat_byte_of_nat) simp
  have d: "unat (of_nat (length (ns_data ns)) :: u16) = length (ns_data ns)"
    using lim(2) by (simp add: unat_of_nat)
  have bs: "bs = [of_nat (length (ns_name ns))] @ ns_name ns
      @ PutUint16 (of_nat (length (ns_data ns))) @ ns_data ns
      @ PutUint32 (ns_height ns) @ PutUint32 (ns_renewal ns) @ PutUint16 (nameField ns)
      @ (if nameField ns AND 1 \<noteq> 0
         then op_Hash (ns_owner ns) @ WriteVarInt (ucast (op_Index (ns_owner ns))) else [])
      @ (if ns_value ns \<noteq> 0 then WriteVarInt (word_of_int (ns_value ns)) else [])
      @ (if ns_highest ns \<noteq> 0 then WriteVarInt (word_of_int (ns_highest ns)) else [])
      @ (if ns_transfer ns \<noteq> 0 then PutUint32 (ns_transfer ns) else [])
      @ (if ns_revoked ns \<noteq> 0 then PutUint32 (ns_revoked ns) else [])
      @ (if ns_claimed ns \<noteq> 0 then PutUint32 (ns_claimed ns) else [])
      @ (if ns_renewals ns \<noteq> 0 then WriteVarInt (ucast (ns_renewals ns)) else []) @ []"
    using enc lim
    unfolding encodeNameState_def Let_def nameField_bits(2-7) append_Nil2
    by (simp split: if_splits)
  have ow: "length (op_Hash (ns_owner ns)) = HashSize"
    and amt: "is_int64 (ns_value ns)" "is_int64 (ns_highest ns)"
    using wf by (auto simp: wf_state_def)
  show ?thesis
    unfolding bs decodeNameState_def Let_def
    using lim
    by (simp add: n d maxNameSize_def maxResourceSize_def nameField_bits
        readOwner_encoded [OF ow nameField_bits(1)] readAmount_encoded [OF amt(1) lim(3)]
        readAmount_encoded [OF amt(2) lim(4)] readHeight_encoded
        readRenewals_encoded [where r = "[]", simplified]
        del: HashSize_def split del: if_split)
qed

lemma VarIntSerializeSize_le: "VarIntSerializeSize v \<le> 9"
  by (simp add: VarIntSerializeSize_def)

lemma length_if_le: "length xs \<le> n \<Longrightarrow> length (if c then xs else []) \<le> n"
  by simp

lemma length_append_le: "length xs \<le> m \<Longrightarrow> length ys \<le> n \<Longrightarrow> length (xs @ ys) \<le> m + n"
  by simp

lemma length_encodeNameState:
  assumes "wf_state ns" and "encodeNameState ns = Inr bs"
  shows "length bs \<le> 668"
proof -
  have lim: "length (ns_name ns) \<le> 63" "length (ns_data ns) \<le> 512"
    "length (op_Hash (ns_owner ns)) \<le> 32" "0 \<le> ns_value ns" "0 \<le> ns_highest ns"
    using assms encodeNameState_ok [of ns]
    by (auto simp: maxNameSize_def maxResourceSize_def wf_state_def)
  have v: "length (WriteVarInt w) \<le> 9" for w
    by (simp add: VarIntSerializeSize_le)
  have "length bs \<le> 1 + (63 + (2 + (512 + (4 + (4 + (2 + (32 + 9 + (9 + (9 + (4 + (4 + (4 + 9))))))))))))"
    using assms(2) lim
    unfolding encodeNameState_def Let_def maxNameSize_def maxResourceSize_def
    apply (simp only: linorder_not_less [symmetric] simp_thms if_False sum.inject)
    apply (erule subst)
    apply (unfold linorder_not_less)
    apply (intro length_append_le length_if_le v)
    apply simp_all
    done
  then show ?thesis by simp
qed

lemma readOwner_wf: "readOwner field rest = Inr (ow, r) \<Longrightarrow> length (op_Hash ow) = 32"
  by (auto simp: readOwner_def need_def nullNameOwner_def zeroHash_def result_simps split: if_splits)

lemma readAmount_wf:
  assumes "readAmount p err rest = Inr (v, r)"
  shows "0 \<le> v \<and> is_int64 v"
proof (cases p)
  case True
  with assms obtain w where "\<not> unat w > 2 ^ 63 - 1" and w: "v = sint (w :: u64)"
    by (auto simp: readAmount_def result_simps split: if_splits)
  then have "int (unat w) < int (2 ^ 63)"
    unfolding of_nat_less_iff by simp
  then have i: "is_int64 (uint w)"
    by (auto simp: is_int64_def intro: order_trans [of _ 0])
  then have "v = uint w"
    using sint_word_of_int_int64 [OF i] w by simp
  with i show ?thesis by simp
next
  case False
  with assms show ?thesis
    by (simp add: readAmount_def is_int64_def)
qed

lemma decodeNameState_storable:
  assumes "decodeNameState nh bs = Inr ns" and "length nh = 32"
  shows "storable ns \<and> ns_nameHash ns = nh"
  using assms unfolding decodeNameState_def Let_def
  by (clarsimp simp: rbind_eq_Inr storable_def wf_state_def split: if_split_asm
      dest!: readOwner_wf readAmount_wf)

lemma encodeNameState_inject:
  assumes "wf_state a" and "wf_state b" and "ns_nameHash a = ns_nameHash b"
    and "encodeNameState a = Inr bs" and "encodeNameState b = Inr bs"
  shows "a = b"
proof -
  have "decodeNameState (ns_nameHash b) bs = Inr a"
    using decode_encodeNameState [OF assms(1,4)] by (simp only: assms(3))
  then show ?thesis
    unfolding decode_encodeNameState [OF assms(2,5)] by simp
qed

section \<open>Properties\<close>

text \<open>C12: Every name state within the consensus limits can be stored, takes at most 668 bytes, and is
  read back from the database unchanged.\<close>

theorem name_state_roundtrip:
  assumes "storable ns"
  shows "\<exists>bs. encodeNameState ns = Inr bs \<and> length bs \<le> 668
    \<and> decodeNameState (ns_nameHash ns) bs = Inr ns"
proof -
  have wf: "wf_state ns" using assms by (simp add: storable_def)
  from storable_encodes [OF assms] obtain bs where "encodeNameState ns = Inr bs" by blast
  with length_encodeNameState [OF wf] decode_encodeNameState [OF wf] show ?thesis by blast
qed

theorem name_state_roundtrip_witness:
  "\<exists>bs. encodeNameState ((newNameState zeroHash)\<lparr>ns_name := [97], ns_value := 300, ns_weak := True\<rparr>) = Inr bs
    \<and> length bs \<le> 668
    \<and> decodeNameState zeroHash bs = Inr ((newNameState zeroHash)\<lparr>ns_name := [97], ns_value := 300, ns_weak := True\<rparr>)"
proof -
  let ?ns = "(newNameState zeroHash)\<lparr>ns_name := [97], ns_value := 300, ns_weak := True\<rparr>"
  have "storable ?ns"
    by (simp add: storable_def wf_state_def newNameState_def nullNameOwner_def zeroHash_def
        is_int64_def maxNameSize_def maxResourceSize_def)
  then show ?thesis
    using name_state_roundtrip [of ?ns] by (simp add: newNameState_def)
qed

end
