(* ===== verification/Reserved.thy ===== *)
theory Reserved
  imports Name_State
begin

text \<open>
  The embedded tables of reserved and of locked names (src/blockchain/reserved.go): loading,
  binary search over the sorted table of name hashes, and decoding of the records. The contents
  of the files \<open>names.db\<close> and \<open>lockup.db\<close> are arguments; a slice expression that leaves the data
  is the error \<open>Panic\<close>, which the theorems exclude for every loaded table.
\<close>

section \<open>Loading\<close>

record reservedNamesDB =
  db_data :: bytes
  db_size :: u32
  db_tableStart :: nat
  db_nameValue :: u64
  db_rootValue :: u64
  db_topValue :: u64

record lockedNamesDB =
  ldb_data :: bytes
  ldb_size :: u32
  ldb_tableStart :: nat

record reservedNameEntry =
  re_name :: bytes
  re_target :: bytes
  re_value :: u64
  re_root :: bool
  re_top100 :: bool
  re_custom :: bool
  re_zero :: bool

record lockedNameEntry =
  le_name :: bytes
  le_target :: bytes
  le_root :: bool
  le_custom :: bool

definition mustLoadReservedNameDB :: "bytes \<Rightarrow> reservedNamesDB result" where
  "mustLoadReservedNameDB data =
     (if length data < 28 then Inl (Panic ''reserved name database is corrupt'')
      else
        let db = \<lparr>db_data = data, db_size = Uint32 (slice data 0 4), db_tableStart = 28,
                  db_nameValue = Uint64 (slice data 4 12), db_rootValue = Uint64 (slice data 12 20),
                  db_topValue = Uint64 (slice data 20 28)\<rparr> in
        if length data < db_tableStart db + unat (db_size db) * 36
        then Inl (Panic ''reserved name database is truncated'') else Inr db)"

definition mustLoadLockedNameDB :: "bytes \<Rightarrow> lockedNamesDB result" where
  "mustLoadLockedNameDB data =
     (if length data < 4 then Inl (Panic ''locked name database is corrupt'')
      else
        let db = \<lparr>ldb_data = data, ldb_size = Uint32 (slice data 0 4), ldb_tableStart = 4\<rparr> in
        if length data < ldb_tableStart db + unat (ldb_size db) * 36
        then Inl (Panic ''locked name database is truncated'') else Inr db)"

section \<open>Records\<close>

definition reservedRecordBounds :: "bytes \<Rightarrow> nat \<Rightarrow> (nat \<times> nat) option" where
  "reservedRecordBounds data pos =
     (if pos \<ge> length data then None
      else
        let targetStart = pos + 1; targetEnd = targetStart + unat (data ! pos) in
        if targetEnd + 2 > length data then None else Some (targetStart, targetEnd))"

definition validReservedRecordOffset :: "bytes \<Rightarrow> nat \<Rightarrow> bool" where
  "validReservedRecordOffset data pos \<longleftrightarrow> reservedRecordBounds data pos \<noteq> None"

definition readReservedRecord :: "bytes \<Rightarrow> nat \<Rightarrow> (bytes \<times> byte \<times> nat \<times> u64) option" where
  "readReservedRecord data pos =
     (case reservedRecordBounds data pos of
        None \<Rightarrow> None
      | Some (targetStart, targetEnd) \<Rightarrow>
          let target = slice data targetStart targetEnd;
              flags = data ! targetEnd;
              index = unat (data ! (targetEnd + 1));
              off = targetEnd + 2;
              customValue = (if length (drop off data) \<ge> 8 then Uint64 (slice data off (off + 8)) else 0)
          in Some (target, flags, index, customValue))"

section \<open>Search\<close>

text \<open>
  The loop of the two \<open>find\<close> methods; \<open>Inr None\<close> is the result -1. A record offset is a
  \<open>uint32\<close>, so it is never negative as an \<open>int\<close>.
\<close>

function find_loop :: "bytes \<Rightarrow> nat \<Rightarrow> hash \<Rightarrow> int \<Rightarrow> int \<Rightarrow> nat option result" where
  "find_loop data tableStart nameHash start stop =
     (if start \<le> stop then
        let index = (start + stop) div 2;
            pos = tableStart + nat index * 36 in
        if pos + 32 > length data then Inl (Panic ''slice bounds out of range'')
        else if slice data pos (pos + 32) = nameHash then
          if pos + 36 > length data then Inl (Panic ''slice bounds out of range'') else
          let recordPos = unat (Uint32 (slice data (pos + 32) (pos + 36))) in
          if \<not> validReservedRecordOffset data recordPos then Inr None else Inr (Some recordPos)
        else if slice data pos (pos + 32) < nameHash
        then find_loop data tableStart nameHash (index + 1) stop
        else find_loop data tableStart nameHash start (index - 1)
      else Inr None)"
  by pat_completeness auto
termination
  by (relation "measure (\<lambda>(data, tableStart, nameHash, start, stop). nat (stop + 1 - start))") auto

declare find_loop.simps [simp del]

definition reservedNamesDB_find :: "reservedNamesDB \<Rightarrow> hash \<Rightarrow> nat option result" where
  "reservedNamesDB_find db nameHash =
     find_loop (db_data db) (db_tableStart db) nameHash 0 (int (unat (db_size db)) - 1)"

definition lockedNamesDB_find :: "lockedNamesDB \<Rightarrow> hash \<Rightarrow> nat option result" where
  "lockedNamesDB_find db nameHash =
     find_loop (ldb_data db) (ldb_tableStart db) nameHash 0 (int (unat (ldb_size db)) - 1)"

definition reservedNamesDB_has :: "reservedNamesDB \<Rightarrow> hash \<Rightarrow> bool result" where
  "reservedNamesDB_has db nameHash =
     rbind (reservedNamesDB_find db nameHash) (\<lambda>pos. Inr (pos \<noteq> None))"

definition reservedNamesDB_get :: "reservedNamesDB \<Rightarrow> hash \<Rightarrow> reservedNameEntry option result" where
  "reservedNamesDB_get db nameHash =
     rbind (reservedNamesDB_find db nameHash) (\<lambda>p.
       case p of
         None \<Rightarrow> Inr None
       | Some pos \<Rightarrow>
           (case readReservedRecord (db_data db) pos of
              None \<Rightarrow> Inr None
            | Some (target, flags, index, customValue) \<Rightarrow>
                if index > length target then Inr None
                else
                  let root = flags AND 1 \<noteq> 0; top100 = flags AND 2 \<noteq> 0;
                      custom = flags AND 4 \<noteq> 0; zero = flags AND 8 \<noteq> 0;
                      v = db_nameValue db;
                      v = (if root then v + db_rootValue db else v);
                      v = (if top100 then v + db_topValue db else v);
                      v = (if custom then v + customValue else v);
                      v = (if zero then 0 else v) in
                  Inr (Some \<lparr>re_name = take index target, re_target = target, re_value = v,
                     re_root = root, re_top100 = top100, re_custom = custom, re_zero = zero\<rparr>)))"

definition lockedNamesDB_get :: "lockedNamesDB \<Rightarrow> hash \<Rightarrow> lockedNameEntry option result" where
  "lockedNamesDB_get db nameHash =
     rbind (lockedNamesDB_find db nameHash) (\<lambda>p.
       case p of
         None \<Rightarrow> Inr None
       | Some pos \<Rightarrow>
           (case readReservedRecord (ldb_data db) pos of
              None \<Rightarrow> Inr None
            | Some (target, flags, index, customValue) \<Rightarrow>
                if index > length target then Inr None
                else Inr (Some \<lparr>le_name = take index target, le_target = target,
                       le_root = flags AND 1 \<noteq> 0, le_custom = flags AND 2 \<noteq> 0\<rparr>)))"

section \<open>Reservation and lockup\<close>

definition isReservedNameHash :: "reservedNamesDB \<Rightarrow> hash \<Rightarrow> u32 \<Rightarrow> Params \<Rightarrow> bool result" where
  "isReservedNameHash db nameHash height params =
     (if NameNoReserved params then Inr False
      else if height \<ge> NameClaimPeriod params then Inr False
      else reservedNamesDB_has db nameHash)"

definition reservedNameValue :: "reservedNamesDB \<Rightarrow> hash \<Rightarrow> (u64 \<times> bool) result" where
  "reservedNameValue db nameHash =
     rbind (reservedNamesDB_get db nameHash) (\<lambda>e.
       case e of None \<Rightarrow> Inr (0, False) | Some entry \<Rightarrow> Inr (re_value entry, True))"

definition isLockedUpNameHash :: "lockedNamesDB \<Rightarrow> hash \<Rightarrow> u32 \<Rightarrow> Params \<Rightarrow> bool result" where
  "isLockedUpNameHash db nameHash height params =
     (if NameNoReserved params then Inr False
      else if height < NameClaimPeriod params then Inr False
      else rbind (lockedNamesDB_get db nameHash) (\<lambda>e.
        case e of
          None \<Rightarrow> Inr False
        | Some entry \<Rightarrow> if le_root entry then Inr True else Inr (height < NameAlexaLockup params)))"

section \<open>The search is exact\<close>

definition tableKey :: "bytes \<Rightarrow> nat \<Rightarrow> nat \<Rightarrow> hash" where
  "tableKey data tableStart i = slice data (tableStart + i * 36) (tableStart + i * 36 + 32)"

definition tableRecord :: "bytes \<Rightarrow> nat \<Rightarrow> nat \<Rightarrow> nat" where
  "tableRecord data tableStart i =
     unat (Uint32 (slice data (tableStart + i * 36 + 32) (tableStart + i * 36 + 36)))"

definition sortedTable :: "bytes \<Rightarrow> nat \<Rightarrow> nat \<Rightarrow> bool" where
  "sortedTable data tableStart n \<longleftrightarrow>
     tableStart + n * 36 \<le> length data
     \<and> sorted_wrt (<) (map (tableKey data tableStart) [0..<n])"

lemma sortedTable_less:
  "sortedTable data ts n \<Longrightarrow> i < j \<Longrightarrow> j < n \<Longrightarrow> tableKey data ts i < tableKey data ts j"
  by (auto simp: sortedTable_def sorted_wrt_iff_nth_less)

definition tableLookup :: "bytes \<Rightarrow> nat \<Rightarrow> nat \<Rightarrow> hash \<Rightarrow> nat option" where
  "tableLookup data tableStart n nameHash =
     (case map_of (map (\<lambda>i. (tableKey data tableStart i, tableRecord data tableStart i)) [0..<n]) nameHash of
        None \<Rightarrow> None
      | Some r \<Rightarrow> if validReservedRecordOffset data r then Some r else None)"

lemma sortedTable_map_of:
  assumes "sortedTable data ts n" and "i < n"
  shows "map_of (map (\<lambda>i. (tableKey data ts i, tableRecord data ts i)) [0..<n]) (tableKey data ts i)
    = Some (tableRecord data ts i)"
proof -
  have "distinct (map (tableKey data ts) [0..<n])"
    using assms(1) strict_sorted_iff unfolding sortedTable_def by blast
  then show ?thesis
    using assms(2) by (intro map_of_is_SomeI) (auto simp: comp_def)
qed

lemma find_loop_correct:
  assumes "sortedTable data ts n" and "0 \<le> start" and "stop < int n"
    and "\<And>i. i < n \<Longrightarrow> tableKey data ts i = h \<Longrightarrow> start \<le> int i \<and> int i \<le> stop"
  shows "find_loop data ts h start stop = Inr (tableLookup data ts n h)"
  using assms(2-)
proof (induction "nat (stop + 1 - start)" arbitrary: start stop rule: less_induct)
  case less
  note range = less.prems(3)
  show ?case
  proof (cases "start \<le> stop")
    case False
    then have "h \<notin> tableKey data ts ` {0..<n}"
      using range by force
    then have "tableLookup data ts n h = None"
      by (auto simp: tableLookup_def split: option.splits dest!: map_of_SomeD)
    with False show ?thesis
      by (simp add: find_loop.simps [of data ts h start stop])
  next
    case True
    define i where "i = nat ((start + stop) div 2)"
    have i: "start \<le> int i" "int i \<le> stop" "i < n" "(start + stop) div 2 = int i"
      using True less.prems(1,2) by (auto simp: i_def)
    have inb: "ts + i * 36 + 36 \<le> length data"
      using assms(1) i(3) by (auto simp: sortedTable_def)
    note unfold = find_loop.simps [of data ts h start stop] tableKey_def [symmetric]
      tableRecord_def [symmetric]
    consider "tableKey data ts i = h" | "tableKey data ts i < h" | "h < tableKey data ts i"
      by (rule linorder_cases)
    then show ?thesis
    proof cases
      case 1
      then show ?thesis
        using True inb sortedTable_map_of [OF assms(1) i(3)]
        by (simp add: unfold i(4) Let_def tableLookup_def)
    next
      case 2
      have "int i + 1 \<le> int j" if "j < n" "tableKey data ts j = h" for j
        using that 2 sortedTable_less [OF assms(1), of j i] i(3) by (cases j i rule: linorder_cases) auto
      then show ?thesis
        using True inb 2 less.hyps [of stop "int i + 1"] less.prems i
        by (simp add: unfold i(4) Let_def less_imp_neq [OF 2])
    next
      case 3
      have "int j \<le> int i - 1" if "j < n" "tableKey data ts j = h" for j
        using that 3 sortedTable_less [OF assms(1), of i j] i(3) by (cases j i rule: linorder_cases) auto
      then show ?thesis
        using True inb 3 less.hyps [of "int i - 1" start] less.prems i
        by (simp add: unfold i(4) Let_def less_imp_neq [OF 3, symmetric] less_not_sym [OF 3])
    qed
  qed
qed

lemma find_loop_full:
  "sortedTable data ts n \<Longrightarrow> find_loop data ts h 0 (int n - 1) = Inr (tableLookup data ts n h)"
  by (rule find_loop_correct) auto

lemma mustLoadReservedNameDB_loaded:
  "mustLoadReservedNameDB data = Inr db \<Longrightarrow>
     db_data db = data \<and> db_tableStart db = 28 \<and> 28 + unat (db_size db) * 36 \<le> length data"
  by (auto simp: mustLoadReservedNameDB_def Let_def split: if_splits)

lemma mustLoadLockedNameDB_loaded:
  "mustLoadLockedNameDB data = Inr db \<Longrightarrow>
     ldb_data db = data \<and> ldb_tableStart db = 4 \<and> 4 + unat (ldb_size db) * 36 \<le> length data"
  by (auto simp: mustLoadLockedNameDB_def Let_def split: if_splits)

lemma find_loop_no_panic:
  assumes "ts + n * 36 \<le> length data" and "0 \<le> start" and "stop < int n"
  shows "\<exists>r. find_loop data ts h start stop = Inr r"
  using assms(2,3)
proof (induction "nat (stop + 1 - start)" arbitrary: start stop rule: less_induct)
  case less
  define i where "i = nat ((start + stop) div 2)"
  show ?case
  proof (cases "start \<le> stop")
    case True
    then have i: "start \<le> int i" "int i \<le> stop" "i < n" "(start + stop) div 2 = int i"
      using less.prems by (auto simp: i_def)
    have inb: "ts + i * 36 + 36 \<le> length data"
      using assms(1) i(3) by auto
    show ?thesis
      using True inb i less.hyps [of stop "int i + 1"] less.hyps [of "int i - 1" start] less.prems
      by (simp add: find_loop.simps [of data ts h start stop] i(4) Let_def)
  qed (simp add: find_loop.simps)
qed

section \<open>Properties\<close>

text \<open>C16: Looking a name hash up in a loaded table of reserved names whose keys are sorted never
  panics and returns the offset of the record stored under that key if the table has the key and
  the offset points at a whole record, and "not found" otherwise: the binary search agrees with
  a linear lookup.\<close>

theorem reservedNamesDB_find_exact:
  assumes "mustLoadReservedNameDB data = Inr db"
    and "sortedTable data 28 (unat (db_size db))"
  shows "reservedNamesDB_find db h = Inr (tableLookup data 28 (unat (db_size db)) h)"
  using mustLoadReservedNameDB_loaded [OF assms(1)] find_loop_full [OF assms(2), of h]
  by (simp add: reservedNamesDB_find_def)

definition tinyDB :: bytes where
  "tinyDB = PutUint32 2 @ PutUint64 5 @ PutUint64 7 @ PutUint64 9
     @ replicate 32 1 @ PutUint32 100 @ replicate 32 3 @ PutUint32 200 @ [3, 97, 98, 99, 1, 3]"

theorem reservedNamesDB_find_exact_witness:
  "reservedNamesDB_find \<lparr>db_data = tinyDB, db_size = 2, db_tableStart = 28, db_nameValue = 5,
     db_rootValue = 7, db_topValue = 9\<rparr> (replicate 32 1) = Inr (Some 100)"
proof -
  let ?db = "\<lparr>db_data = tinyDB, db_size = 2, db_tableStart = 28, db_nameValue = 5,
     db_rootValue = 7, db_topValue = 9\<rparr>"
  have "mustLoadReservedNameDB tinyDB = Inr ?db" by code_simp
  moreover have "sortedTable tinyDB 28 2" by code_simp
  moreover have "tableLookup tinyDB 28 2 (replicate 32 1) = Some 100" by code_simp
  ultimately show ?thesis
    using reservedNamesDB_find_exact [of tinyDB ?db "replicate 32 1"] by simp
qed

end
