(* ===== verification/Covenant_Rules.thy ===== *)
theory Covenant_Rules
  imports Name_Codec Reserved
begin

text \<open>
  Context-free covenant rules (second half of src/blockchain/names.go): access to covenant items,
  the classes of covenants, the sanity of a transaction's covenants and the per-block limits.
  The claim and airdrop proof checks of src/blockchain/claimproof.go and airdropproof.go and the
  loaded table of reserved names are the fields of an argument (\<open>proof_env\<close>).
\<close>

section \<open>Covenant items\<close>

definition covenantItem :: "Covenant \<Rightarrow> int \<Rightarrow> bytes" where
  "covenantItem c index =
     (let n = int (length (cov_Items c));
          index = (if index < 0 then index + n else index) in
      if index < 0 \<or> index \<ge> n then [] else cov_Items c ! nat index)"

definition covenantHash :: "Covenant \<Rightarrow> int \<Rightarrow> hash \<times> bool" where
  "covenantHash c index =
     (let item = covenantItem c index in
      if length item \<noteq> HashSize then (zeroHash, False) else (item, True))"

definition covenantU32 :: "Covenant \<Rightarrow> int \<Rightarrow> u32 \<times> bool" where
  "covenantU32 c index =
     (let item = covenantItem c index in
      if length item \<noteq> 4 then (0, False) else (Uint32 item, True))"

definition covenantU8 :: "Covenant \<Rightarrow> int \<Rightarrow> byte \<times> bool" where
  "covenantU8 c index =
     (let item = covenantItem c index in
      if length item \<noteq> 1 then (0, False) else (hd item, True))"

definition covenantHashMust :: "Covenant \<Rightarrow> int \<Rightarrow> hash" where
  "covenantHashMust c index = fst (covenantHash c index)"

definition badCovenant :: "string \<Rightarrow> error" where
  "badCovenant reason = RuleError ''ErrInvalidCovenant'' reason"

section \<open>Classes of covenants\<close>

definition isNameCovenant :: "byte \<Rightarrow> bool" where
  "isNameCovenant t \<longleftrightarrow> CovenantClaim \<le> t \<and> t \<le> CovenantRevoke"


definition isNameUpdateCovenant :: "byte \<Rightarrow> bool" where
  "isNameUpdateCovenant t \<longleftrightarrow>
     t \<in> {CovenantClaim, CovenantOpen, CovenantUpdate, CovenantTransfer, CovenantRevoke}"

definition isRenewalNameCovenant :: "byte \<Rightarrow> bool" where
  "isRenewalNameCovenant t \<longleftrightarrow> t \<in> {CovenantRegister, CovenantRenew, CovenantFinalize}"

section \<open>Limits\<close>

definition maxBlockNameOpens :: nat where "maxBlockNameOpens = 300"
definition maxBlockNameUpdates :: nat where "maxBlockNameUpdates = 600"
definition maxBlockNameRenewals :: nat where "maxBlockNameRenewals = 600"
definition maxCovenantSize :: nat where
  "maxCovenantSize = 1 + 32 + 1 + 4 + 2 + maxResourceSize + 1 + 32"

text \<open>The three counters of the loops over outputs: opens, updates, renewals.\<close>

definition countCovenant :: "nat \<times> nat \<times> nat \<Rightarrow> TxOut \<Rightarrow> nat \<times> nat \<times> nat" where
  "countCovenant cs out =
     (case cs of (opens, updates, renewals) \<Rightarrow>
        let t = cov_Type (to_Covenant out) in
        (if t = CovenantOpen then opens + 1 else opens,
         if isNameUpdateCovenant t then updates + 1 else updates,
         if isRenewalNameCovenant t then renewals + 1 else renewals))"

definition checkNameCounts :: "string \<Rightarrow> nat \<times> nat \<times> nat \<Rightarrow> unit result" where
  "checkNameCounts who cs =
     (case cs of (opens, updates, renewals) \<Rightarrow>
        if opens > maxBlockNameOpens
        then Inl (badCovenant (who @ '' contains too many name opens''))
        else if updates > maxBlockNameUpdates
        then Inl (badCovenant (who @ '' contains too many name updates''))
        else if renewals > maxBlockNameRenewals
        then Inl (badCovenant (who @ '' contains too many name renewals''))
        else Inr ())"

definition checkTransactionNameLimits :: "Tx \<Rightarrow> unit result" where
  "checkTransactionNameLimits tx =
     checkNameCounts ''transaction'' (foldl countCovenant (0, 0, 0) (tx_TxOut (utx_msgTx tx)))"

section \<open>Sanity of the covenants of one transaction\<close>

record proof_env =
  checkCoinbaseAirdropProofSanity :: "Tx \<Rightarrow> nat \<Rightarrow> unit result"
  checkCoinbaseClaimProofSanity :: "Tx \<Rightarrow> nat \<Rightarrow> Covenant \<Rightarrow> unit result"
  reservedNameDB :: reservedNamesDB

definition checkNameHashHeight :: "Covenant \<Rightarrow> nat \<Rightarrow> unit result" where
  "checkNameHashHeight c count =
     (if length (cov_Items c) \<noteq> count then Inl (badCovenant ''covenant has items'')
      else if \<not> snd (covenantHash c 0) then Inl (badCovenant ''covenant name hash is invalid'')
      else if \<not> snd (covenantU32 c 1) then Inl (badCovenant ''covenant height is invalid'')
      else Inr ())"

definition checkNamedCovenant :: "hashers \<Rightarrow> Covenant \<Rightarrow> nat \<Rightarrow> bool \<Rightarrow> unit result" where
  "checkNamedCovenant H c count hasName =
     rbind (checkNameHashHeight c count) (\<lambda>_.
       if hasName then
         let name = covenantItem c 2; nameHash = fst (covenantHash c 0) in
         if \<not> verifyName name \<or> hashName H name \<noteq> nameHash
         then Inl (badCovenant ''covenant name does not match hash'') else Inr ()
       else Inr ())"

definition checkClaimCovenant :: "hashers \<Rightarrow> proof_env \<Rightarrow> Covenant \<Rightarrow> unit result" where
  "checkClaimCovenant H pe c =
     rbind (checkNamedCovenant H c 6 True) (\<lambda>_.
       if \<not> snd (covenantU8 c 3) then Inl (badCovenant ''CLAIM flags are invalid'')
       else if \<not> snd (covenantHash c 4) then Inl (badCovenant ''CLAIM commit hash is invalid'')
       else if \<not> snd (covenantU32 c 5) then Inl (badCovenant ''CLAIM commit height is invalid'')
       else rbind (reservedNamesDB_has (reservedNameDB pe) (fst (covenantHash c 0))) (\<lambda>found.
         if \<not> found then Inl (badCovenant ''CLAIM name is not reserved'') else Inr ()))"

definition checkUnknownCovenant :: "Covenant \<Rightarrow> unit result" where
  "checkUnknownCovenant c =
     (if length (cov_Items c) > MaxCovenantItems
      then Inl (badCovenant ''unknown covenant has too many items'')
      else if Covenant_SerializeSize c > maxCovenantSize
      then Inl (badCovenant ''unknown covenant is too large'')
      else Inr ())"

text \<open>One step of the loop over the outputs of a coinbase transaction.\<close>

definition checkCoinbaseOutput :: "hashers \<Rightarrow> proof_env \<Rightarrow> Tx \<Rightarrow> nat \<Rightarrow> TxOut \<Rightarrow> unit result" where
  "checkCoinbaseOutput H pe tx i txOut =
     (let c = to_Covenant txOut; nIn = length (tx_TxIn (utx_msgTx tx)) in
      if cov_Type c = CovenantNone then
        (if length (cov_Items c) \<noteq> 0 then Inl (badCovenant ''NONE covenant has items'')
         else if i > 0 \<and> i < nIn then checkCoinbaseAirdropProofSanity pe tx i
         else Inr ())
      else if cov_Type c = CovenantClaim then
        (if i = 0 \<or> i \<ge> nIn then Inl (badCovenant ''coinbase CLAIM is not linked'')
         else rbind (checkClaimCovenant H pe c) (\<lambda>_. checkCoinbaseClaimProofSanity pe tx i c))
      else Inl (badCovenant ''coinbase creates non-claim covenant''))"

text \<open>One step of the loop over the outputs of any other transaction with \<open>nIn\<close> inputs.\<close>

definition checkOutputCovenant :: "hashers \<Rightarrow> nat \<Rightarrow> nat \<Rightarrow> Covenant \<Rightarrow> unit result" where
  "checkOutputCovenant H nIn i c =
     (let t = cov_Type c in
      if t = CovenantNone then
        (if length (cov_Items c) \<noteq> 0 then Inl (badCovenant ''NONE covenant has items'') else Inr ())
      else if t = CovenantClaim then Inl (badCovenant ''non-coinbase CLAIM covenant'')
      else if t = CovenantOpen then
        rbind (checkNamedCovenant H c 3 True) (\<lambda>_.
          if fst (covenantU32 c 1) \<noteq> 0
          then Inl (badCovenant ''OPEN covenant has non-zero height'') else Inr ())
      else if t = CovenantBid then
        rbind (checkNamedCovenant H c 4 True) (\<lambda>_.
          if \<not> snd (covenantHash c 3)
          then Inl (badCovenant ''BID covenant blind is not a hash'') else Inr ())
      else if t = CovenantReveal then
        (if i \<ge> nIn then Inl (badCovenant ''REVEAL covenant is not linked'') else
         rbind (checkNameHashHeight c 3) (\<lambda>_.
          if \<not> snd (covenantHash c 2)
          then Inl (badCovenant ''REVEAL covenant nonce is not a hash'') else Inr ()))
      else if t = CovenantRedeem then
        (if i \<ge> nIn then Inl (badCovenant ''REDEEM covenant is not linked'')
         else checkNameHashHeight c 2)
      else if t = CovenantRegister then
        (if i \<ge> nIn then Inl (badCovenant ''REGISTER covenant is not linked'') else
         rbind (checkNameHashHeight c 4) (\<lambda>_.
          if length (covenantItem c 2) > maxResourceSize
          then Inl (badCovenant ''REGISTER resource is too large'')
          else if \<not> snd (covenantHash c 3)
          then Inl (badCovenant ''REGISTER renewal is not a hash'') else Inr ()))
      else if t = CovenantUpdate then
        (if i \<ge> nIn then Inl (badCovenant ''UPDATE covenant is not linked'') else
         rbind (checkNameHashHeight c 3) (\<lambda>_.
          if length (covenantItem c 2) > maxResourceSize
          then Inl (badCovenant ''UPDATE resource is too large'') else Inr ()))
      else if t = CovenantRenew then
        (if i \<ge> nIn then Inl (badCovenant ''RENEW covenant is not linked'') else
         rbind (checkNameHashHeight c 3) (\<lambda>_.
          if \<not> snd (covenantHash c 2)
          then Inl (badCovenant ''RENEW renewal is not a hash'') else Inr ()))
      else if t = CovenantTransfer then
        (if i \<ge> nIn then Inl (badCovenant ''TRANSFER covenant is not linked'') else
         rbind (checkNameHashHeight c 4) (\<lambda>_.
          if \<not> snd (covenantU8 c 2) \<or> fst (covenantU8 c 2) > 31
          then Inl (badCovenant ''TRANSFER address version is invalid'')
          else if length (covenantItem c 3) < 2 \<or> length (covenantItem c 3) > 40
          then Inl (badCovenant ''TRANSFER address hash is invalid'') else Inr ()))
      else if t = CovenantFinalize then
        (if i \<ge> nIn then Inl (badCovenant ''FINALIZE covenant is not linked'') else
         rbind (checkNameHashHeight c 7) (\<lambda>_.
          if \<not> verifyName (covenantItem c 2) \<or> hashName H (covenantItem c 2) \<noteq> covenantHashMust c 0
          then Inl (badCovenant ''FINALIZE name is invalid'')
          else if \<not> snd (covenantU8 c 3) then Inl (badCovenant ''FINALIZE flags are invalid'')
          else if \<not> snd (covenantU32 c 4) then Inl (badCovenant ''FINALIZE claim height is invalid'')
          else if \<not> snd (covenantU32 c 5) then Inl (badCovenant ''FINALIZE renewal count is invalid'')
          else if \<not> snd (covenantHash c 6) then Inl (badCovenant ''FINALIZE renewal is not a hash'')
          else Inr ()))
      else if t = CovenantRevoke then
        (if i \<ge> nIn then Inl (badCovenant ''REVOKE covenant is not linked'')
         else checkNameHashHeight c 2)
      else checkUnknownCovenant c)"

definition checkCovenantSanity :: "hashers \<Rightarrow> proof_env \<Rightarrow> Tx \<Rightarrow> unit result" where
  "checkCovenantSanity H pe tx =
     (let msgTx = utx_msgTx tx; nIn = length (tx_TxIn msgTx) in
      rbind (checkTransactionNameLimits tx) (\<lambda>_.
      if IsCoinBase tx then
        (if \<exists>i \<in> set [1..<nIn]. i \<ge> length (tx_TxOut msgTx)
         then Inl (badCovenant ''coinbase proof input is unlinked'')
         else for_each (checkCoinbaseOutput H pe tx) 0 (tx_TxOut msgTx))
      else for_each (\<lambda>i txOut. checkOutputCovenant H nIn i (to_Covenant txOut)) 0 (tx_TxOut msgTx)))"

section \<open>Limits over a block\<close>






section \<open>The item table\<close>

text \<open>
  What the checks of an output amount to: the items of a covenant, in order, each with the kind
  of value it holds. This is the specification the sanity checks are compared with.
\<close>

datatype item_kind = IHash | IU32 | IStart | IU8 | IName | IResource | IAddrVersion | IAddrHash

fun item_ok :: "item_kind \<Rightarrow> bytes \<Rightarrow> bool" where
  "item_ok IHash b \<longleftrightarrow> length b = 32"
| "item_ok IU32 b \<longleftrightarrow> length b = 4"
| "item_ok IStart b \<longleftrightarrow> length b = 4 \<and> Uint32 b = 0"
| "item_ok IU8 b \<longleftrightarrow> length b = 1"
| "item_ok IName b \<longleftrightarrow> verifyName b"
| "item_ok IResource b \<longleftrightarrow> length b \<le> 512"
| "item_ok IAddrVersion b \<longleftrightarrow> length b = 1 \<and> hd b \<le> 31"
| "item_ok IAddrHash b \<longleftrightarrow> 2 \<le> length b \<and> length b \<le> 40"

definition item_table :: "(byte \<times> bool \<times> item_kind list) list" where
  "item_table =
     [(CovenantNone, False, []),
      (CovenantOpen, False, [IHash, IStart, IName]),
      (CovenantBid, False, [IHash, IU32, IName, IHash]),
      (CovenantReveal, True, [IHash, IU32, IHash]),
      (CovenantRedeem, True, [IHash, IU32]),
      (CovenantRegister, True, [IHash, IU32, IResource, IHash]),
      (CovenantUpdate, True, [IHash, IU32, IResource]),
      (CovenantRenew, True, [IHash, IU32, IHash]),
      (CovenantTransfer, True, [IHash, IU32, IAddrVersion, IAddrHash]),
      (CovenantFinalize, True, [IHash, IU32, IName, IU8, IU32, IU32, IHash]),
      (CovenantRevoke, True, [IHash, IU32])]"

definition sane_output :: "hashers \<Rightarrow> nat \<Rightarrow> nat \<Rightarrow> Covenant \<Rightarrow> bool" where
  "sane_output H nIn i c \<longleftrightarrow>
     (case map_of item_table (cov_Type c) of
        Some (linked, kinds) \<Rightarrow>
          (linked \<longrightarrow> i < nIn) \<and> list_all2 item_ok kinds (cov_Items c)
          \<and> (IName \<in> set kinds \<longrightarrow> hashName H (cov_Items c ! 2) = cov_Items c ! 0)
      | None \<Rightarrow> cov_Type c \<noteq> CovenantClaim \<and> length (cov_Items c) \<le> MaxCovenantItems
          \<and> Covenant_SerializeSize c \<le> maxCovenantSize)"

lemma covenantItem_nth: "j < length (cov_Items c) \<Longrightarrow> covenantItem c (int j) = cov_Items c ! j"
  by (simp add: covenantItem_def)

lemma covenantItem_numeral [simp]:
  "0 < length (cov_Items c) \<Longrightarrow> covenantItem c 0 = cov_Items c ! 0"
  "1 < length (cov_Items c) \<Longrightarrow> covenantItem c 1 = cov_Items c ! 1"
  "numeral k < length (cov_Items c) \<Longrightarrow> covenantItem c (numeral k) = cov_Items c ! numeral k"
  using covenantItem_nth [of 0 c] covenantItem_nth [of 1 c] covenantItem_nth [of "numeral k" c]
  by simp_all

lemma covenantHash_simps [simp]:
  "snd (covenantHash c j) \<longleftrightarrow> length (covenantItem c j) = 32"
  "length (covenantItem c j) = 32 \<Longrightarrow> fst (covenantHash c j) = covenantItem c j"
  by (simp_all add: covenantHash_def Let_def)

lemma covenantU32_simps [simp]:
  "snd (covenantU32 c j) \<longleftrightarrow> length (covenantItem c j) = 4"
  "length (covenantItem c j) = 4 \<Longrightarrow> fst (covenantU32 c j) = Uint32 (covenantItem c j)"
  by (simp_all add: covenantU32_def Let_def)

lemma covenantU8_simps [simp]:
  "snd (covenantU8 c j) \<longleftrightarrow> length (covenantItem c j) = 1"
  "length (covenantItem c j) = 1 \<Longrightarrow> fst (covenantU8 c j) = hd (covenantItem c j)"
  by (simp_all add: covenantU8_def Let_def)

lemma checkNameHashHeight_ok:
  "checkNameHashHeight c n = Inr u \<longleftrightarrow>
     length (cov_Items c) = n \<and> length (covenantItem c 0) = 32 \<and> length (covenantItem c 1) = 4"
  by (simp add: checkNameHashHeight_def)

lemma checkNamedCovenant_ok:
  "checkNamedCovenant H c n True = Inr u \<longleftrightarrow>
     checkNameHashHeight c n = Inr () \<and> verifyName (covenantItem c 2)
     \<and> hashName H (covenantItem c 2) = covenantItem c 0"
  by (auto simp: checkNamedCovenant_def rbind_eq_Inr checkNameHashHeight_ok Let_def)

lemmas sanity_simps = checkNameHashHeight_ok checkNamedCovenant_ok rbind_eq_Inr covenantHashMust_def
  maxResourceSize_def

lemma list_all2_conv_length:
  "list_all2 P ks xs \<longleftrightarrow> length xs = length ks \<and> (\<forall>j < length ks. P (ks ! j) (xs ! j))"
  by (auto simp: list_all2_conv_all_nth)

lemma checkOutputCovenant_known:
  assumes "t \<in> {CovenantNone, CovenantOpen, CovenantBid, CovenantReveal, CovenantRedeem,
    CovenantRegister, CovenantUpdate, CovenantRenew, CovenantTransfer, CovenantFinalize,
    CovenantRevoke}" and "cov_Type c = t"
  shows "checkOutputCovenant H nIn i c = Inr () \<longleftrightarrow> sane_output H nIn i c"
proof -
  note split = list_all2_conv_length All_less_Suc2 numeral_nat
  from assms(1) consider "t = CovenantNone" | "t = CovenantOpen" | "t = CovenantBid"
    | "t = CovenantReveal" | "t = CovenantRedeem" | "t = CovenantRegister" | "t = CovenantUpdate"
    | "t = CovenantRenew" | "t = CovenantTransfer" | "t = CovenantFinalize" | "t = CovenantRevoke"
    unfolding insert_iff empty_iff by blast
  then show ?thesis
    using assms(2)
    by (cases; simp add: checkOutputCovenant_def; simp add: sane_output_def item_table_def;
        auto simp: sanity_simps split)
qed

lemma checkOutputCovenant_unknown:
  assumes "t \<notin> {CovenantNone, CovenantOpen, CovenantBid, CovenantReveal, CovenantRedeem,
    CovenantRegister, CovenantUpdate, CovenantRenew, CovenantTransfer, CovenantFinalize,
    CovenantRevoke}" and "cov_Type c = t"
  shows "checkOutputCovenant H nIn i c = Inr () \<longleftrightarrow> sane_output H nIn i c"
proof -
  have "map_of item_table t = None"
    using assms(1) by (simp add: item_table_def)
  then show ?thesis
    using assms by (simp add: sane_output_def checkOutputCovenant_def checkUnknownCovenant_def not_less)
qed

lemma checkOutputCovenant_sane:
  "checkOutputCovenant H nIn i c = Inr () \<longleftrightarrow> sane_output H nIn i c"
  using checkOutputCovenant_known [OF _ refl] checkOutputCovenant_unknown [OF _ refl] by blast

section \<open>Counting\<close>

definition covenantCount :: "(byte \<Rightarrow> bool) \<Rightarrow> TxOut list \<Rightarrow> nat" where
  "covenantCount P outs = length (filter (\<lambda>o'. P (cov_Type (to_Covenant o'))) outs)"

definition withinNameLimits :: "TxOut list \<Rightarrow> bool" where
  "withinNameLimits outs \<longleftrightarrow>
     covenantCount (\<lambda>t. t = CovenantOpen) outs \<le> 300
     \<and> covenantCount isNameUpdateCovenant outs \<le> 600
     \<and> covenantCount isRenewalNameCovenant outs \<le> 600"

lemma foldl_countCovenant:
  "foldl countCovenant (a, b, c) outs =
     (a + covenantCount (\<lambda>t. t = CovenantOpen) outs, b + covenantCount isNameUpdateCovenant outs,
      c + covenantCount isRenewalNameCovenant outs)"
  by (induction outs arbitrary: a b c) (auto simp: countCovenant_def covenantCount_def Let_def)

lemma checkNameCounts_ok:
  "checkNameCounts who (a, b, c) = Inr u \<longleftrightarrow> a \<le> 300 \<and> b \<le> 600 \<and> c \<le> 600"
  by (auto simp: checkNameCounts_def maxBlockNameOpens_def maxBlockNameUpdates_def
      maxBlockNameRenewals_def)

lemma checkTransactionNameLimits_ok:
  "checkTransactionNameLimits tx = Inr u \<longleftrightarrow> withinNameLimits (tx_TxOut (utx_msgTx tx))"
  by (simp add: checkTransactionNameLimits_def foldl_countCovenant checkNameCounts_ok
      withinNameLimits_def)


lemma covenantCount_append: "covenantCount P (xs @ ys) = covenantCount P xs + covenantCount P ys"
  by (simp add: covenantCount_def)





section \<open>Properties\<close>

text \<open>C10: The sanity check of a transaction that is not a coinbase accepts exactly the transactions
  whose covenants have the items of the covenant table (each covenant type with its list of item
  kinds, linked types at an index that has an input, named types with a valid name whose hash is
  the first item, unknown types within the size limits) and that stay within the per-transaction
  limits on opens, updates and renewals.\<close>

theorem covenant_sanity_table:
  assumes "\<not> IsCoinBase tx"
  shows "checkCovenantSanity H pe tx = Inr () \<longleftrightarrow>
    withinNameLimits (tx_TxOut (utx_msgTx tx))
    \<and> (\<forall>i < length (tx_TxOut (utx_msgTx tx)).
         sane_output H (length (tx_TxIn (utx_msgTx tx))) i (to_Covenant (tx_TxOut (utx_msgTx tx) ! i)))"
  using assms
  by (simp add: checkCovenantSanity_def Let_def rbind_eq_Inr checkTransactionNameLimits_ok for_each_ok
      checkOutputCovenant_sane)

definition ex_proofs :: proof_env where
  "ex_proofs = \<lparr>checkCoinbaseAirdropProofSanity = (\<lambda>_ _. Inr ()),
     checkCoinbaseClaimProofSanity = (\<lambda>_ _ _. Inr ()),
     reservedNameDB = \<lparr>db_data = replicate 28 0, db_size = 0, db_tableStart = 28,
       db_nameValue = 0, db_rootValue = 0, db_topValue = 0\<rparr>\<rparr>"

theorem covenant_sanity_table_witness:
  "checkCovenantSanity \<lparr>blake2b256 = take 32, blake2b512 = take 64, sha3_256 = take 32\<rparr> ex_proofs
     (NewTx tinyMsg) = Inr ()"
  using covenant_sanity_table [of "NewTx tinyMsg"
      "\<lparr>blake2b256 = take 32, blake2b512 = take 64, sha3_256 = take 32\<rparr>" ex_proofs]
  by (simp add: tinyMsg_def NewTx_def IsCoinBase_def IsCoinBaseTx_def isNullOutpoint_def
      withinNameLimits_def covenantCount_def isNameUpdateCovenant_def isRenewalNameCovenant_def
      sane_output_def item_table_def)


end
