(* ===== verification/Key_Value.thy ===== *)
theory Key_Value
  imports Prelude
begin

text \<open>
  Ordered key/value collections. The interface \<open>ordered_store\<close> is what the name database asks of a
  database bucket (src/database/interface.go: \<open>Get\<close>, \<open>Put\<close>, \<open>Delete\<close>, and \<open>ForEach\<close> in key
  order); the in-memory maps of the block view use the same operations. The instance is the
  sorted association list, in which equal contents are equal lists.
\<close>

section \<open>The interface\<close>

lemma alist_by_keys:
  assumes "distinct (map fst xs)"
  shows "map (\<lambda>k. (k, the (map_of xs k))) (map fst xs) = xs"
  unfolding map_map using assms by (intro map_idI) (auto simp: comp_def)

lemma sorted_alist_ext:
  assumes "sorted_wrt (<) (map fst xs)" and "sorted_wrt (<) (map fst ys)" and "map_of xs = map_of ys"
  shows "xs = (ys :: ('k::linorder \<times> 'v) list)"
proof -
  have "set (map fst xs) = set (map fst ys)"
    using map_of_eq_dom [OF assms(3)] by simp
  then have keys: "map fst xs = map fst ys"
    using strict_sorted_equal [OF assms(2,1)] by simp
  have d: "distinct (map fst xs)" "distinct (map fst ys)"
    using assms(1,2) by (simp_all only: strict_sorted_iff)
  have "xs = map (\<lambda>k. (k, the (map_of xs k))) (map fst xs)"
    by (rule alist_by_keys [OF d(1), symmetric])
  also have "\<dots> = ys"
    unfolding keys assms(3) by (rule alist_by_keys [OF d(2)])
  finally show ?thesis .
qed

locale ordered_store =
  fixes empty :: "'s"
    and lookup :: "'s \<Rightarrow> 'k::linorder \<Rightarrow> 'v option"
    and store :: "'k \<Rightarrow> 'v \<Rightarrow> 's \<Rightarrow> 's"
    and remove :: "'k \<Rightarrow> 's \<Rightarrow> 's"
    and entries :: "'s \<Rightarrow> ('k \<times> 'v) list"
    and inv :: "'s \<Rightarrow> bool"
  assumes inv_empty: "inv empty"
    and inv_store: "inv s \<Longrightarrow> inv (store k v s)"
    and inv_remove: "inv s \<Longrightarrow> inv (remove k s)"
    and lookup_empty: "lookup empty k = None"
    and lookup_store: "inv s \<Longrightarrow> lookup (store k v s) k' = (if k = k' then Some v else lookup s k')"
    and lookup_remove: "inv s \<Longrightarrow> lookup (remove k s) k' = (if k = k' then None else lookup s k')"
    and entries_sorted: "inv s \<Longrightarrow> sorted_wrt (<) (map fst (entries s))"
    and entries_lookup: "inv s \<Longrightarrow> map_of (entries s) = lookup s"
begin

definition upd :: "'k \<Rightarrow> 'v option \<Rightarrow> 's \<Rightarrow> 's" where
  "upd k w s = (case w of None \<Rightarrow> remove k s | Some v \<Rightarrow> store k v s)"

definition upds :: "('k \<times> 'v option) list \<Rightarrow> 's \<Rightarrow> 's" where
  "upds ws s = fold (\<lambda>(k, w). upd k w) ws s"

lemma inv_upd: "inv s \<Longrightarrow> inv (upd k w s)"
  by (simp add: upd_def inv_store inv_remove split: option.split)

lemma lookup_upd: "inv s \<Longrightarrow> lookup (upd k w s) k' = (if k = k' then w else lookup s k')"
  by (simp add: upd_def lookup_store lookup_remove split: option.split)

lemma inv_upds: "inv s \<Longrightarrow> inv (upds ws s)"
  unfolding upds_def by (induction ws arbitrary: s) (auto simp: inv_upd)

lemma lookup_upds:
  "inv s \<Longrightarrow> distinct (map fst ws) \<Longrightarrow>
     lookup (upds ws s) k = (case map_of ws k of None \<Rightarrow> lookup s k | Some w \<Rightarrow> w)"
proof (induction ws arbitrary: s)
  case (Cons x ws)
  obtain k' w where x: "x = (k', w)" by fastforce
  from Cons have "lookup (upds ws (upd k' w s)) k
    = (case map_of ws k of None \<Rightarrow> lookup (upd k' w s) k | Some w \<Rightarrow> w)"
    by (simp add: inv_upd)
  moreover have "map_of ws k' = None"
    using Cons.prems(2) by (simp add: x map_of_eq_None_iff)
  ultimately show ?case
    using Cons.prems(1) by (auto simp: x upds_def lookup_upd split: option.splits)
qed (simp add: upds_def)

lemma entries_ext:
  assumes "inv s" and "inv t" and "\<And>k. lookup s k = lookup t k"
  shows "entries s = entries t"
proof (rule sorted_alist_ext)
  show "map_of (entries s) = map_of (entries t)"
    using assms by (simp only: entries_lookup fun_eq_iff simp_thms)
qed (use assms in \<open>simp_all only: entries_sorted\<close>)

lemma upds_order:
  assumes "inv s" and "distinct (map fst ws)" and "distinct (map fst ws')" and "set ws = set ws'"
  shows "entries (upds ws s) = entries (upds ws' s)"
proof -
  have "map_of ws = map_of ws'"
    using assms(2-) by (simp add: map_of_inject_set)
  then show ?thesis
    using assms by (intro entries_ext) (simp_all add: inv_upds lookup_upds)
qed

lemma upds_undo:
  assumes "inv s" and "distinct (map fst ws)" and "distinct (map fst us)"
    and "fst ` set ws \<subseteq> fst ` set us" and "\<And>k w. (k, w) \<in> set us \<Longrightarrow> w = lookup s k"
  shows "entries (upds us (upds ws s)) = entries s"
proof (rule entries_ext)
  fix k
  show "lookup (upds us (upds ws s)) k = lookup s k"
  proof (cases "map_of us k")
    case None
    with assms(4) have "map_of ws k = None"
      by (auto simp: map_of_eq_None_iff)
    with None show ?thesis
      using assms(1-3) by (simp add: inv_upds lookup_upds)
  next
    case (Some w)
    then have "w = lookup s k"
      using assms(5) map_of_SomeD by metis
    with Some show ?thesis
      using assms(1-3) by (simp add: inv_upds lookup_upds)
  qed
qed (use assms(1) in \<open>simp_all add: inv_upds\<close>)

end

section \<open>Sorted association lists\<close>

type_synonym ('k, 'v) bucket = "('k \<times> 'v) list"

fun bput :: "'k::linorder \<Rightarrow> 'v \<Rightarrow> ('k, 'v) bucket \<Rightarrow> ('k, 'v) bucket" where
  "bput k v [] = [(k, v)]"
| "bput k v ((k', v') # xs) =
     (if k < k' then (k, v) # (k', v') # xs
      else if k = k' then (k, v) # xs else (k', v') # bput k v xs)"

fun bdel :: "'k::linorder \<Rightarrow> ('k, 'v) bucket \<Rightarrow> ('k, 'v) bucket" where
  "bdel k [] = []"
| "bdel k ((k', v') # xs) =
     (if k < k' then (k', v') # xs else if k = k' then xs else (k', v') # bdel k xs)"

definition bsorted :: "('k::linorder, 'v) bucket \<Rightarrow> bool" where
  "bsorted xs \<longleftrightarrow> sorted_wrt (<) (map fst xs)"

lemma set_bput: "fst ` set (bput k v xs) = insert k (fst ` set xs)"
  by (induction k v xs rule: bput.induct) auto

lemma set_bdel: "set (bdel k xs) \<subseteq> set xs"
  by (induction k xs rule: bdel.induct) auto

lemma bsorted_bput: "bsorted xs \<Longrightarrow> bsorted (bput k v xs)"
proof (induction k v xs rule: bput.induct)
  case (2 k v k' v' xs)
  have "fst ` set (bput k v xs) = insert k (fst ` set xs)"
    by (rule set_bput)
  with 2 show ?case
    by (auto simp: bsorted_def)
qed (simp add: bsorted_def)

lemma bsorted_bdel: "bsorted xs \<Longrightarrow> bsorted (bdel k xs)"
proof (induction k xs rule: bdel.induct)
  case (2 k k' v' xs)
  have "\<forall>x \<in> set xs. k' < fst x \<Longrightarrow> \<forall>x \<in> set (bdel k xs). k' < fst x"
    using set_bdel [of k xs] by blast
  with 2 show ?case
    by (simp add: bsorted_def)
qed (simp add: bsorted_def)

lemma map_of_bput: "map_of (bput k v xs) k' = (if k = k' then Some v else map_of xs k')"
  by (induction k v xs rule: bput.induct) auto

lemma bsorted_head: "bsorted ((k, v) # xs) \<Longrightarrow> k' \<le> k \<Longrightarrow> map_of xs k' = None"
  by (force simp: bsorted_def map_of_eq_None_iff)

lemma map_of_bdel:
  "bsorted xs \<Longrightarrow> map_of (bdel k xs) k' = (if k = k' then None else map_of xs k')"
proof (induction k xs rule: bdel.induct)
  case (2 k a v xs)
  moreover have "bsorted xs"
    using 2(2) by (simp add: bsorted_def)
  ultimately show ?case
    using bsorted_head [OF 2(2), of k] by auto
qed simp

interpretation kv: ordered_store "[]" map_of bput bdel "\<lambda>xs. xs" bsorted
proof
  show "bsorted xs \<Longrightarrow> sorted_wrt (<) (map fst xs)" for xs :: "('a \<times> 'b) list"
    by (simp add: bsorted_def)
  show "bsorted []"
    by (simp add: bsorted_def)
qed (simp_all add: bsorted_bput bsorted_bdel map_of_bput map_of_bdel)

lemmas kv_simps [simp] = kv.lookup_store kv.lookup_remove kv.inv_store kv.inv_remove kv.inv_empty

end
