(* ===== verification/Name_DB.thy ===== *)
theory Name_DB
  imports Covenant_Rules Key_Value
begin

text \<open>
  The name database (src/blockchain/nameio.go): the bucket of name states, the journal of undo
  entries of each block, and the committed root. A bucket that does not exist is \<open>None\<close>. The
  buckets are reached through the operations of \<open>ordered_store\<close>; writes of an open read-write
  transaction succeed.
\<close>

section \<open>Buckets\<close>

record nameDB =
  nd_state :: "(bytes, bytes) bucket option"
  nd_undo :: "(bytes, bytes) bucket option"
  nd_snapshot :: "(bytes, bytes) bucket option"
  nd_root :: "bytes option"

definition dbFetchNameRoot :: "nameDB \<Rightarrow> hash result" where
  "dbFetchNameRoot db =
     (case nd_root db of
        None \<Rightarrow> Inr zeroHash
      | Some rootBytes \<Rightarrow>
          if length rootBytes \<noteq> HashSize
          then Inl (DatabaseError ''ErrCorruption'' ''corrupt name root'') else Inr rootBytes)"

definition dbPutNameRoot :: "hash \<Rightarrow> nameDB \<Rightarrow> nameDB" where
  "dbPutNameRoot root db = db\<lparr>nd_root := Some root\<rparr>"

definition dbFetchNameState :: "nameDB \<Rightarrow> hash \<Rightarrow> nameState option result" where
  "dbFetchNameState db nameHash =
     (case nd_state db of
        None \<Rightarrow> Inr None
      | Some bucket \<Rightarrow>
          (case map_of bucket nameHash of
             None \<Rightarrow> Inr None
           | Some serialized \<Rightarrow>
               rbind (decodeNameState nameHash serialized) (\<lambda>ns. Inr (Some ns))))"

definition dbPutNameState :: "nameState \<Rightarrow> nameDB \<Rightarrow> nameDB result" where
  "dbPutNameState ns db =
     (case nd_state db of
        None \<Rightarrow> Inl (DatabaseError ''ErrBucketNotFound'' ''name state bucket missing'')
      | Some bucket \<Rightarrow>
          if isNull ns then Inr (db\<lparr>nd_state := Some (bdel (ns_nameHash ns) bucket)\<rparr>)
          else rbind (encodeNameState ns) (\<lambda>serialized.
            Inr (db\<lparr>nd_state := Some (bput (ns_nameHash ns) serialized bucket)\<rparr>)))"

text \<open>\<open>ForEach\<close> over the state bucket, decoding each entry.\<close>

fun fetchStates :: "(bytes, bytes) bucket \<Rightarrow> (hash, nameState) bucket \<Rightarrow> (hash, nameState) bucket result" where
  "fetchStates [] states = Inr states"
| "fetchStates ((k, v) # kvs) states =
     (if length k \<noteq> HashSize then Inl (DatabaseError ''ErrCorruption'' ''corrupt name state key length'')
      else rbind (decodeNameState k v) (\<lambda>ns. fetchStates kvs (bput k ns states)))"

definition dbFetchAllNameStates :: "nameDB \<Rightarrow> (hash, nameState) bucket result" where
  "dbFetchAllNameStates db =
     (case nd_state db of None \<Rightarrow> Inr [] | Some bucket \<Rightarrow> fetchStates bucket [])"

section \<open>Undo entries\<close>

record nameUndoEntry =
  ue_nameHash :: hash
  ue_existed :: bool
  ue_state :: "nameState option"

text \<open>Encoding through a nil state is a panic.\<close>

definition encodeState :: "nameState option \<Rightarrow> bytes result" where
  "encodeState st = (case st of None \<Rightarrow> Inl (Panic ''nil name state'') | Some ns \<Rightarrow> encodeNameState ns)"

definition writeUndoEntry :: "nameUndoEntry \<Rightarrow> bytes result" where
  "writeUndoEntry entry =
     (if ue_existed entry
      then rbind (encodeState (ue_state entry)) (\<lambda>serialized.
        Inr (ue_nameHash entry @ [1] @ WriteVarBytes serialized))
      else Inr (ue_nameHash entry @ [0]))"

definition dbSerializeNameUndo :: "nameUndoEntry list \<Rightarrow> bytes result" where
  "dbSerializeNameUndo entries =
     rbind (write_many writeUndoEntry entries) (\<lambda>body.
       Inr (WriteVarInt (of_nat (length entries)) @ body))"

definition maxSerializedNameState :: nat where "maxSerializedNameState = 2048"

definition readUndoEntry :: "nameUndoEntry reader" where
  "readUndoEntry bs =
     rbind (ReadFull HashSize bs) (\<lambda>(nameHash, r).
     case r of
       [] \<Rightarrow> Inl EOF
     | existed # r \<Rightarrow>
         if existed = 0
         then Inr (\<lparr>ue_nameHash = nameHash, ue_existed = False, ue_state = None\<rparr>, r)
         else if existed = 1 then
           rbind (ReadVarBytes (of_nat maxSerializedNameState) r) (\<lambda>(stateBytes, r).
           rbind (decodeNameState nameHash stateBytes) (\<lambda>ns.
             Inr (\<lparr>ue_nameHash = nameHash, ue_existed = True, ue_state = Some ns\<rparr>, r)))
         else Inl (DeserializeError ''corrupt name undo entry''))"

definition dbDeserializeNameUndo :: "bytes \<Rightarrow> nameUndoEntry list result" where
  "dbDeserializeNameUndo serialized =
     rbind (ReadVarInt serialized) (\<lambda>(count, r).
       if unat count > maxBlockNameUpdates + maxBlockNameRenewals + maxBlockNameOpens
       then Inl (DeserializeError ''too many name undo entries'')
       else rbind (read_many readUndoEntry (unat count) r) (\<lambda>(entries, r).
         if r \<noteq> [] then Inl (DeserializeError ''trailing bytes in name undo'') else Inr entries))"

definition dbPutNameUndo :: "hash \<Rightarrow> nameUndoEntry list \<Rightarrow> nameDB \<Rightarrow> nameDB result" where
  "dbPutNameUndo blockHash entries db =
     (case nd_undo db of
        None \<Rightarrow> Inl (DatabaseError ''ErrBucketNotFound'' ''name undo bucket missing'')
      | Some bucket \<Rightarrow>
          if length entries = 0 then Inr (db\<lparr>nd_undo := Some (bdel blockHash bucket)\<rparr>)
          else rbind (dbSerializeNameUndo entries) (\<lambda>serialized.
            Inr (db\<lparr>nd_undo := Some (bput blockHash serialized bucket)\<rparr>)))"

definition dbFetchNameUndo :: "nameDB \<Rightarrow> hash \<Rightarrow> nameUndoEntry list result" where
  "dbFetchNameUndo db blockHash =
     (case nd_undo db of
        None \<Rightarrow> Inl (DatabaseError ''ErrBucketNotFound'' ''name undo bucket missing'')
      | Some bucket \<Rightarrow>
          (case map_of bucket blockHash of
             None \<Rightarrow> Inr []
           | Some serialized \<Rightarrow> dbDeserializeNameUndo serialized))"

definition dbRemoveNameUndo :: "hash \<Rightarrow> nameDB \<Rightarrow> nameDB" where
  "dbRemoveNameUndo blockHash db =
     (case nd_undo db of
        None \<Rightarrow> db
      | Some bucket \<Rightarrow> db\<lparr>nd_undo := Some (bdel blockHash bucket)\<rparr>)"

section \<open>Round trip of the undo journal\<close>

text \<open>An entry that records a name which did not exist loses its (null) state in the journal.\<close>

definition forget :: "nameUndoEntry \<Rightarrow> nameUndoEntry" where
  "forget e = (if ue_existed e then e else e\<lparr>ue_state := None\<rparr>)"

definition valid_undo :: "nameUndoEntry \<Rightarrow> bool" where
  "valid_undo e \<longleftrightarrow>
     length (ue_nameHash e) = 32
     \<and> (if ue_existed e
        then (case ue_state e of None \<Rightarrow> False
              | Some ns \<Rightarrow> storable ns \<and> ns_nameHash ns = ue_nameHash e)
        else ue_state e = None)"

lemma writeUndoEntry_forget: "writeUndoEntry (forget e) = writeUndoEntry e"
  by (simp add: forget_def writeUndoEntry_def)

lemma readUndoEntry_writeUndoEntry:
  assumes "valid_undo e" and "writeUndoEntry e = Inr bs"
  shows "readUndoEntry (bs @ r) = Inr (e, r)"
proof (cases "ue_existed e")
  case True
  with assms obtain ns s where ns: "ue_state e = Some ns" "storable ns" "ns_nameHash ns = ue_nameHash e"
    and s: "encodeNameState ns = Inr s" and bs: "bs = ue_nameHash e @ [1] @ WriteVarBytes s"
    by (auto simp: valid_undo_def writeUndoEntry_def encodeState_def result_simps split: option.splits)
  have wf: "wf_state ns" using ns(2) by (simp add: storable_def)
  have "length s \<le> 2048"
    using length_encodeNameState [OF wf s] by simp
  then have "ReadVarBytes 2048 (WriteVarBytes s @ r) = Inr (s, r)"
    by (intro ReadVarBytes_WriteVarBytes) simp
  moreover have "length (ue_nameHash e) = 32"
    using assms(1) by (simp add: valid_undo_def)
  moreover have "decodeNameState (ue_nameHash e) s = Inr ns"
    using decode_encodeNameState [OF wf s] by (simp only: ns(3))
  ultimately show ?thesis
    using True ns(1) by (simp add: bs readUndoEntry_def codec_simps maxSerializedNameState_def)
next
  case False
  with assms show ?thesis
    by (auto simp: valid_undo_def writeUndoEntry_def readUndoEntry_def codec_simps)
qed

interpretation undo_entry: codec writeUndoEntry readUndoEntry valid_undo
  by unfold_locales (rule readUndoEntry_writeUndoEntry)

lemma dbDeserializeNameUndo_serialize:
  assumes "list_all valid_undo es" and "length es \<le> 1500" and "dbSerializeNameUndo es = Inr bs"
  shows "dbDeserializeNameUndo bs = Inr es"
proof -
  from assms(3) obtain body where body: "write_many writeUndoEntry es = Inr body"
    and bs: "bs = WriteVarInt (of_nat (length es)) @ body"
    by (auto simp: dbSerializeNameUndo_def result_simps)
  have "read_many readUndoEntry (length es) (body @ []) = Inr (es, [])"
    using assms(1) body by (intro undo_entry.read_write_many)
  moreover have "unat (of_nat (length es) :: u64) = length es"
    using assms(2) by (intro unat_u64_of_nat) simp
  ultimately show ?thesis
    using assms(2)
    by (simp add: bs dbDeserializeNameUndo_def codec_simps maxBlockNameOpens_def
        maxBlockNameUpdates_def maxBlockNameRenewals_def)
qed

lemma dbDeserializeNameUndo_too_many:
  assumes "1500 < length es" and "length es < 2 ^ 64" and "dbSerializeNameUndo es = Inr bs"
  shows "dbDeserializeNameUndo bs = Inl (DeserializeError ''too many name undo entries'')"
  using assms
  by (auto simp: dbSerializeNameUndo_def result_simps dbDeserializeNameUndo_def codec_simps
      unat_u64_of_nat maxBlockNameOpens_def maxBlockNameUpdates_def maxBlockNameRenewals_def)

section \<open>Properties\<close>

text \<open>C13: An undo journal of up to 1500 entries is read back from the database as it was written,
  up to the null state of the names that did not exist before.\<close>

theorem undo_journal_roundtrip:
  assumes "list_all (\<lambda>e. valid_undo (forget e)) entries" and "length entries \<le> 1500"
    and "dbSerializeNameUndo entries = Inr bs"
  shows "dbDeserializeNameUndo bs = Inr (map forget entries)"
proof -
  have "write_many writeUndoEntry (map forget es) = write_many writeUndoEntry es" for es
    by (induction es) (simp_all add: writeUndoEntry_forget)
  then have "dbSerializeNameUndo (map forget entries) = Inr bs"
    using assms(3) by (simp add: dbSerializeNameUndo_def)
  moreover have "list_all valid_undo (map forget entries)"
    using assms(1) by (simp add: list_all_length)
  ultimately show ?thesis
    using assms(2) by (intro dbDeserializeNameUndo_serialize) simp_all
qed

definition ex_undo :: "nameUndoEntry list" where
  "ex_undo = [\<lparr>ue_nameHash = zeroHash, ue_existed = False, ue_state = Some (newNameState zeroHash)\<rparr>,
     \<lparr>ue_nameHash = replicate 32 2, ue_existed = True,
      ue_state = Some ((newNameState (replicate 32 2))\<lparr>ns_name := [97], ns_height := 5\<rparr>)\<rparr>]"

theorem undo_journal_roundtrip_witness:
  "\<exists>bs. dbSerializeNameUndo ex_undo = Inr bs \<and> dbDeserializeNameUndo bs = Inr (map forget ex_undo)"
proof -
  have v: "list_all (\<lambda>e. valid_undo (forget e)) ex_undo"
    by (simp add: ex_undo_def forget_def valid_undo_def storable_def wf_state_def newNameState_def
        nullNameOwner_def zeroHash_def is_int64_def maxNameSize_def maxResourceSize_def)
  have "\<exists>bs. dbSerializeNameUndo ex_undo = Inr bs"
    by (simp add: ex_undo_def dbSerializeNameUndo_def writeUndoEntry_def encodeState_def
        encodeNameState_def Let_def newNameState_def maxNameSize_def maxResourceSize_def)
  then obtain bs where "dbSerializeNameUndo ex_undo = Inr bs" by blast
  then show ?thesis
    using undo_journal_roundtrip [OF v] by (auto simp: ex_undo_def)
qed

text \<open>C15: The limit of 1500 entries is on reading only. Whatever journal of more entries
  \<open>dbSerializeNameUndo\<close> has written, reading it back fails, so that the block it belongs to cannot be
  disconnected.\<close>

theorem undo_journal_too_long:
  assumes "1500 < length entries" and "length entries < 2 ^ 64"
    and "dbSerializeNameUndo entries = Inr bs"
  shows "dbDeserializeNameUndo bs = Inl (DeserializeError ''too many name undo entries'')"
  using dbDeserializeNameUndo_too_many [OF assms] .

lemma write_undo_replicate:
  "writeUndoEntry e = Inr c \<Longrightarrow> write_many writeUndoEntry (replicate n e) = Inr (concat (replicate n c))"
  by (induction n) simp_all

theorem undo_journal_too_long_witness:
  "\<exists>bs. dbSerializeNameUndo (replicate 1501 (hd ex_undo)) = Inr bs
    \<and> dbDeserializeNameUndo bs = Inl (DeserializeError ''too many name undo entries'')"
proof -
  obtain c where "writeUndoEntry (hd ex_undo) = Inr c" by (simp add: ex_undo_def writeUndoEntry_def)
  from write_undo_replicate [OF this, of 1501]
  obtain bs where "dbSerializeNameUndo (replicate 1501 (hd ex_undo)) = Inr bs"
    by (auto simp: dbSerializeNameUndo_def)
  with undo_journal_too_long [OF _ _ this] show ?thesis by simp
qed

end
