(* ===== verification/Name_View.thy ===== *)
theory Name_View
  imports Name_DB
begin

text \<open>
  Contextual validation of name covenants (src/blockchain/namevalidate.go): the rules for spending
  a covenant, the block view that loads, changes and journals name states, and the transition of
  a name for each covenant type. The view is an explicit state: an operation returns its result
  and the view it leaves, also when it fails, because the Go code mutates the states of the view
  in place before some of its checks.
\<close>

section \<open>Spending a covenant\<close>

record namePrevOutput =
  po_outpoint :: OutPoint
  po_amount :: int
  po_address :: Address
  po_covenant :: Covenant

definition sameNameAndHeight :: "Covenant \<Rightarrow> Covenant \<Rightarrow> bool" where
  "sameNameAndHeight a b =
     (case covenantHash a 0 of (aHash, aok) \<Rightarrow>
      case covenantHash b 0 of (bHash, bok) \<Rightarrow>
      case covenantU32 a 1 of (aHeight, ahok) \<Rightarrow>
      case covenantU32 b 1 of (bHeight, bhok) \<Rightarrow>
        if \<not> aok then False
        else if \<not> bok \<or> aHash \<noteq> bHash then False
        else if \<not> ahok then False
        else bhok \<and> aHeight = bHeight)"

definition equalAddress :: "Address \<Rightarrow> Address \<Rightarrow> bool" where
  "equalAddress a b \<longleftrightarrow> addr_Version a = addr_Version b \<and> addr_Hash a = addr_Hash b"

definition blindBid :: "hashers \<Rightarrow> int \<Rightarrow> hash \<Rightarrow> hash" where
  "blindBid H val nonce = blake2b256 H (PutUint64 (word_of_int val) @ nonce)"

definition txOutpoint :: "hashers \<Rightarrow> Tx \<Rightarrow> nat \<Rightarrow> OutPoint result" where
  "txOutpoint H tx outputIndex =
     rbind (Tx_Hash H tx) (\<lambda>h. Inr \<lparr>op_Hash = h, op_Index = of_nat outputIndex\<rparr>)"

definition linkedPrevOutput :: "namePrevOutput list \<Rightarrow> nat \<Rightarrow> string \<Rightarrow> namePrevOutput result" where
  "linkedPrevOutput prevOutputs outputIndex covenant =
     (if outputIndex \<ge> length prevOutputs
      then Inl (badCovenant (covenant @ '' covenant is not linked''))
      else Inr (prevOutputs ! outputIndex))"

definition requireCurrentNameOwner ::
  "namePrevOutput list \<Rightarrow> nat \<Rightarrow> nameState \<Rightarrow> string \<Rightarrow> unit result" where
  "requireCurrentNameOwner prevOutputs outputIndex ns covenant =
     rbind (linkedPrevOutput prevOutputs outputIndex covenant) (\<lambda>prev.
       if po_outpoint prev \<noteq> ns_owner ns
       then Inl (badCovenant (covenant @ '' covenant does not spend current owner''))
       else Inr ())"

definition verifyCovenantSpend :: "hashers \<Rightarrow> namePrevOutput \<Rightarrow> TxOut option \<Rightarrow> unit result" where
  "verifyCovenantSpend H prev out =
     (let uc = po_covenant prev; ut = cov_Type uc in
      case out of
        None \<Rightarrow>
          if ut \<in> {CovenantNone, CovenantOpen, CovenantRedeem} then Inr ()
          else Inl (badCovenant ''linked covenant missing output'')
      | Some output \<Rightarrow>
          let c = to_Covenant output; t = cov_Type c in
          if ut \<in> {CovenantNone, CovenantOpen, CovenantRedeem} then
            (if t \<in> {CovenantNone, CovenantOpen, CovenantBid} then Inr ()
             else Inl (badCovenant ''invalid covenant after NONE/OPEN/REDEEM''))
          else if ut = CovenantBid then
            (if t \<noteq> CovenantReveal then Inl (badCovenant ''BID must spend to REVEAL'')
             else if \<not> sameNameAndHeight uc c then Inl (badCovenant ''REVEAL does not match BID'')
             else if blindBid H (to_Value output) (fst (covenantHash c 2)) \<noteq> fst (covenantHash uc 3)
               then Inl (badCovenant ''REVEAL value does not match BID blind'')
             else if po_amount prev < to_Value output
               then Inl (badCovenant ''REVEAL value exceeds BID coin'')
             else Inr ())
          else if ut \<in> {CovenantClaim, CovenantReveal} then
            (if t = CovenantRegister then
               (if \<not> sameNameAndHeight uc c then Inl (badCovenant ''REGISTER does not match REVEAL'')
                else if \<not> equalAddress (to_Address output) (po_address prev)
                  then Inl (badCovenant ''REGISTER address changed'')
                else Inr ())
             else if t = CovenantRedeem then
               (if ut = CovenantClaim then Inl (badCovenant ''CLAIM cannot spend to REDEEM'')
                else if \<not> sameNameAndHeight uc c then Inl (badCovenant ''REDEEM does not match REVEAL'')
                else Inr ())
             else Inl (badCovenant ''invalid covenant after CLAIM/REVEAL''))
          else if ut \<in> {CovenantRegister, CovenantUpdate, CovenantRenew, CovenantFinalize} then
            (if to_Value output \<noteq> po_amount prev then Inl (badCovenant ''name value changed'')
             else if \<not> equalAddress (to_Address output) (po_address prev)
               then Inl (badCovenant ''name address changed'')
             else if t \<in> {CovenantUpdate, CovenantRenew, CovenantTransfer, CovenantRevoke} then
               (if \<not> sameNameAndHeight uc c then Inl (badCovenant ''name covenant is nonlocal'')
                else Inr ())
             else Inl (badCovenant ''invalid covenant after name owner''))
          else if ut = CovenantTransfer then
            (if to_Value output \<noteq> po_amount prev then Inl (badCovenant ''transfer value changed'')
             else if t \<in> {CovenantUpdate, CovenantRenew, CovenantRevoke} then
               (if \<not> sameNameAndHeight uc c then Inl (badCovenant ''transfer covenant is nonlocal'')
                else if \<not> equalAddress (to_Address output) (po_address prev)
                  then Inl (badCovenant ''transfer address changed'')
                else Inr ())
             else if t = CovenantFinalize then
               (if \<not> sameNameAndHeight uc c then Inl (badCovenant ''FINALIZE covenant is nonlocal'')
                else if addr_Version (to_Address output) \<noteq> fst (covenantU8 uc 2)
                     \<or> addr_Hash (to_Address output) \<noteq> covenantItem uc 3
                  then Inl (badCovenant ''FINALIZE address mismatch'')
                else Inr ())
             else Inl (badCovenant ''invalid covenant after TRANSFER''))
          else if ut = CovenantRevoke then Inl (badCovenant ''REVOKE covenant is unspendable'')
          else if isNameCovenant t then Inl (badCovenant ''unknown covenant spends to name covenant'')
          else Inr ())"

definition verifyCovenantSpends :: "hashers \<Rightarrow> Tx \<Rightarrow> namePrevOutput list \<Rightarrow> unit result" where
  "verifyCovenantSpends H tx prevOutputs =
     (let outs = tx_TxOut (utx_msgTx tx) in
      if length prevOutputs \<noteq> length (tx_TxIn (utx_msgTx tx))
      then Inl (AssertError ''missing covenant previous outputs'')
      else for_each (\<lambda>inputIndex prev.
             verifyCovenantSpend H prev
               (if inputIndex < length outs then Some (outs ! inputIndex) else None)) 0 prevOutputs)"

section \<open>The view\<close>

record handshakeDeploymentFlags =
  hardeningActive :: bool
  icannLockupActive :: bool
  airstopActive :: bool

record nameBlockView =
  nv_states :: "(hash, nameState) bucket"
  nv_loaded :: "hash set option"
  nv_dirty :: "hash set"
  nv_undo :: "nameUndoEntry list"
  nv_seen :: "hash set"
  nv_mainChainHeight :: "(hash \<Rightarrow> int result) option"
  nv_ownerCoinValue :: "(OutPoint \<Rightarrow> (int \<times> bool) result) option"

text \<open>
  What the view reaches through its chain: the parameters, the tables of names, the height index
  of the main chain and the check of claim proofs.
\<close>

record chainEnv =
  ce_hash :: hashers
  chainParams :: Params
  ce_reservedNameDB :: reservedNamesDB
  ce_lockedNameDB :: lockedNamesDB
  chain_mainChainHeight :: "hash \<Rightarrow> int result"
  verifyCoinbaseClaimProof :: "Tx \<Rightarrow> nat \<Rightarrow> u32 \<Rightarrow> int \<Rightarrow> handshakeDeploymentFlags \<Rightarrow> unit result"

definition newNameBlockViewFromStates :: "(hash, nameState) bucket \<Rightarrow> nameBlockView" where
  "newNameBlockViewFromStates states = \<lparr>nv_states = states, nv_loaded = None, nv_dirty = {},
     nv_undo = [], nv_seen = {}, nv_mainChainHeight = None, nv_ownerCoinValue = None\<rparr>"

definition newLazyNameBlockView :: nameBlockView where
  "newLazyNameBlockView = \<lparr>nv_states = [], nv_loaded = Some {}, nv_dirty = {},
     nv_undo = [], nv_seen = {}, nv_mainChainHeight = None, nv_ownerCoinValue = None\<rparr>"

definition newNameBlockView :: "nameDB \<Rightarrow> nameBlockView result" where
  "newNameBlockView db =
     rbind (dbFetchAllNameStates db) (\<lambda>states. Inr (newNameBlockViewFromStates states))"

definition needsDB :: "nameBlockView \<Rightarrow> bool" where
  "needsDB v \<longleftrightarrow> nv_loaded v \<noteq> None"

definition putState :: "hash \<Rightarrow> nameState \<Rightarrow> nameBlockView \<Rightarrow> nameBlockView" where
  "putState nameHash ns v = v\<lparr>nv_states := bput nameHash ns (nv_states v)\<rparr>"

definition view_get ::
  "nameDB option \<Rightarrow> hash \<Rightarrow> nameBlockView \<Rightarrow> nameState result \<times> nameBlockView" where
  "view_get dbTx nameHash v =
     (case map_of (nv_states v) nameHash of
        Some ns \<Rightarrow> (Inr ns, v)
      | None \<Rightarrow>
          (case nv_loaded v of
             Some loaded \<Rightarrow>
               (case dbTx of
                  None \<Rightarrow> (Inl (AssertError ''lazy name block view requires a database transaction''), v)
                | Some db \<Rightarrow>
                    (case dbFetchNameState db nameHash of
                       Inl e \<Rightarrow> (Inl e, v)
                     | Inr found \<Rightarrow>
                         let ns = (case found of None \<Rightarrow> newNameState nameHash | Some ns \<Rightarrow> ns) in
                         (Inr ns, putState nameHash ns (v\<lparr>nv_loaded := Some (insert nameHash loaded)\<rparr>))))
           | None \<Rightarrow>
               let ns = newNameState nameHash in (Inr ns, putState nameHash ns v)))"

definition nameStatesEqual :: "nameState \<Rightarrow> nameState \<Rightarrow> bool" where
  "nameStatesEqual a b =
     (case encodeNameState a of
        Inl _ \<Rightarrow> False
      | Inr encodedA \<Rightarrow>
          (case encodeNameState b of Inl _ \<Rightarrow> False | Inr encodedB \<Rightarrow> encodedA = encodedB))"

definition recordChange :: "nameState \<Rightarrow> nameState \<Rightarrow> nameBlockView \<Rightarrow> nameBlockView" where
  "recordChange before after v =
     (if nameStatesEqual before after then v
      else
        let nameHash = ns_nameHash after;
            v = (if nameHash \<notin> nv_seen v
                 then v\<lparr>nv_undo := nv_undo v @ [\<lparr>ue_nameHash = nameHash,
                          ue_existed = \<not> isNull before, ue_state = Some before\<rparr>],
                        nv_seen := insert nameHash (nv_seen v)\<rparr>
                 else v) in
        v\<lparr>nv_dirty := insert nameHash (nv_dirty v)\<rparr>)"

definition nameOwnerCoinValue :: "nameBlockView \<Rightarrow> OutPoint \<Rightarrow> (int \<times> bool) result" where
  "nameOwnerCoinValue v ow =
     (case nv_ownerCoinValue v of None \<Rightarrow> Inr (0, False) | Some f \<Rightarrow> f ow)"

definition mainChainHeightForHash :: "chainEnv \<Rightarrow> nameBlockView \<Rightarrow> hash \<Rightarrow> int result" where
  "mainChainHeightForHash env v h =
     (case nv_mainChainHeight v of None \<Rightarrow> chain_mainChainHeight env h | Some f \<Rightarrow> f h)"

definition verifyNameRenewalHash :: "chainEnv \<Rightarrow> nameBlockView \<Rightarrow> hash \<Rightarrow> u32 \<Rightarrow> bool result" where
  "verifyNameRenewalHash env v h height =
     (let params = chainParams env in
      if height < NameRenewalMaturity params then Inr True
      else rbind (mainChainHeightForHash env v h) (\<lambda>blockHeight.
        if blockHeight < 0 then Inr False
        else
          let maxHeight = int (unat height) - int (unat (NameRenewalMaturity params)) in
          if blockHeight > maxHeight then Inr False
          else
            let minHeight = max (int (unat height) - int (unat (NameRenewalPeriod params))) 0 in
            Inr (blockHeight \<ge> minHeight)))"

section \<open>Rollout\<close>

definition modNameHash :: "hash \<Rightarrow> u32 \<Rightarrow> u32" where
  "modNameHash nameHash m =
     (let p = 256 mod m in foldl (\<lambda>acc b. (p * acc + ucast b) mod m) 0 nameHash)"

definition hasNameRollout :: "hash \<Rightarrow> u32 \<Rightarrow> Params \<Rightarrow> bool" where
  "hasNameRollout nameHash height params =
     (if NameNoRollout params then True
      else
        let week = modNameHash nameHash 52;
            start = NameAuctionStart params + week * NameRolloutInterval params in
        height \<ge> start)"

end
