(* ===== verification/Name_Apply.thy ===== *)
theory Name_Apply
  imports Name_View
begin

text \<open>
  The transitions of a name (src/blockchain/namevalidate.go, \<open>applyTx\<close> and below): what a CLAIM,
  OPEN, BID, REVEAL, REDEEM, REGISTER, UPDATE, RENEW, TRANSFER, FINALIZE or REVOKE output requires
  of the state of its name and of the output it spends, and the state it leaves.
\<close>

section \<open>Transitions\<close>

definition applyClaim ::
  "chainEnv \<Rightarrow> nameBlockView \<Rightarrow> nameState \<Rightarrow> Covenant \<Rightarrow> Tx \<Rightarrow> nat \<Rightarrow> u32 \<Rightarrow> int \<Rightarrow> nameStateKind
    \<Rightarrow> int \<Rightarrow> handshakeDeploymentFlags \<Rightarrow> nameState result" where
  "applyClaim env v ns c tx outputIndex height prevTime state val flags =
     (let params = chainParams env;
          validState = (state = nameStateOpening \<or> state = nameStateLocked
                        \<or> (state = nameStateClosed \<and> \<not> ns_registered ns)) in
      if \<not> validState then Inl (badCovenant ''CLAIM covenant in invalid name state'') else
      rbind (if ns_expired ns then Inr False
             else isReservedNameHash (ce_reservedNameDB env) (ns_nameHash ns) height params) (\<lambda>reserved.
      if \<not> reserved then Inl (badCovenant ''CLAIM covenant for unreserved name'') else
      rbind (verifyCoinbaseClaimProof env tx outputIndex height prevTime flags) (\<lambda>_.
      let weak = (fst (covenantU8 c 3) AND 1 \<noteq> 0) in
      if hardeningActive flags \<and> weak
      then Inl (badCovenant ''CLAIM ownership proof uses weak algorithm'') else
      rbind (mainChainHeightForHash env v (fst (covenantHash c 4))) (\<lambda>claimed.
      let claimHeight = fst (covenantU32 c 5) in
      if claimed < 0 \<or> word_of_int claimed \<noteq> claimHeight
      then Inl (badCovenant ''CLAIM covenant commit height mismatch'')
      else if word_of_int claimed \<le> ns_claimed ns
      then Inl (badCovenant ''CLAIM covenant commit is not newer'') else
      rbind
        (if height \<ge> NameDeflationHeight params then
           (if isNullNameOwner (ns_owner ns) \<and> claimed \<noteq> 1
            then Inl (badCovenant ''initial CLAIM must commit to height 1'')
            else if \<not> isNullNameOwner (ns_owner ns) \<and> height < ns_height ns + NameClaimFrequency params
            then Inl (badCovenant ''CLAIM covenant before frequency'')
            else if \<not> isNullNameOwner (ns_owner ns) then
              rbind (nameOwnerCoinValue v (ns_owner ns)) (\<lambda>(coinValue, ok).
                if \<not> ok \<or> val \<noteq> coinValue
                then Inl (badCovenant ''CLAIM covenant has invalid replacement value'') else Inr ())
            else Inr ())
         else Inr ()) (\<lambda>_.
      rbind (txOutpoint (ce_hash env) tx outputIndex) (\<lambda>outpoint.
        Inr (ns\<lparr>ns_height := height, ns_renewal := height, ns_claimed := word_of_int claimed,
               ns_value := 0, ns_owner := outpoint, ns_highest := 0, ns_weak := weak\<rparr>)))))))"

definition applyOpen ::
  "chainEnv \<Rightarrow> nameState \<Rightarrow> hash \<Rightarrow> u32 \<Rightarrow> nameStateKind \<Rightarrow> handshakeDeploymentFlags
    \<Rightarrow> nameState result" where
  "applyOpen env ns nameHash height state flags =
     (let params = chainParams env in
      if state \<noteq> nameStateOpening then Inl (badCovenant ''OPEN covenant in invalid name state'')
      else if ns_height ns \<noteq> height then Inl (badCovenant ''duplicate OPEN covenant'')
      else
      rbind (if \<not> NameNoReserved params
             then isReservedNameHash (ce_reservedNameDB env) nameHash height params else Inr False)
        (\<lambda>reserved.
      if reserved then Inl (badCovenant ''OPEN covenant for reserved name'') else
      rbind (if icannLockupActive flags
             then isLockedUpNameHash (ce_lockedNameDB env) nameHash height params else Inr False)
        (\<lambda>locked.
      if locked then Inl (badCovenant ''OPEN covenant for locked name'')
      else if \<not> hasNameRollout nameHash height params
      then Inl (badCovenant ''OPEN covenant before rollout'')
      else Inr ns)))"

definition applyBid :: "nameState \<Rightarrow> nameStateKind \<Rightarrow> u32 \<Rightarrow> nameState result" where
  "applyBid ns state start =
     (if state \<noteq> nameStateBidding then Inl (badCovenant ''BID covenant in invalid name state'')
      else if start \<noteq> ns_height ns then Inl (badCovenant ''BID covenant has nonlocal height'')
      else Inr ns)"

definition applyReveal ::
  "chainEnv \<Rightarrow> nameState \<Rightarrow> Tx \<Rightarrow> nat \<Rightarrow> TxOut \<Rightarrow> nameStateKind \<Rightarrow> u32 \<Rightarrow> namePrevOutput list
    \<Rightarrow> nameState result" where
  "applyReveal env ns tx outputIndex txOut state start prevOutputs =
     (if start \<noteq> ns_height ns then Inl (badCovenant ''REVEAL covenant has nonlocal height'')
      else if state \<noteq> nameStateReveal then Inl (badCovenant ''REVEAL covenant in invalid name state'')
      else rbind (linkedPrevOutput prevOutputs outputIndex ''REVEAL'') (\<lambda>_.
        if isNullNameOwner (ns_owner ns) \<or> to_Value txOut > ns_highest ns then
          rbind (txOutpoint (ce_hash env) tx outputIndex) (\<lambda>outpoint.
            Inr (ns\<lparr>ns_value := ns_highest ns, ns_owner := outpoint, ns_highest := to_Value txOut\<rparr>))
        else if to_Value txOut > ns_value ns then Inr (ns\<lparr>ns_value := to_Value txOut\<rparr>)
        else Inr ns))"

definition applyRedeem ::
  "nameState \<Rightarrow> nat \<Rightarrow> nameStateKind \<Rightarrow> u32 \<Rightarrow> namePrevOutput list \<Rightarrow> nameState result" where
  "applyRedeem ns outputIndex state start prevOutputs =
     (if start \<noteq> ns_height ns then Inl (badCovenant ''REDEEM covenant has nonlocal height'')
      else if state < nameStateClosed then Inl (badCovenant ''REDEEM covenant before close'')
      else rbind (linkedPrevOutput prevOutputs outputIndex ''REDEEM'') (\<lambda>prev.
        if po_outpoint prev = ns_owner ns
        then Inl (badCovenant ''winning REVEAL cannot be redeemed'') else Inr ns))"

definition applyRegister ::
  "chainEnv \<Rightarrow> nameBlockView \<Rightarrow> nameState \<Rightarrow> Covenant \<Rightarrow> Tx \<Rightarrow> nat \<Rightarrow> TxOut \<Rightarrow> u32 \<Rightarrow> nameStateKind
    \<Rightarrow> namePrevOutput list \<Rightarrow> handshakeDeploymentFlags \<Rightarrow> nameState result" where
  "applyRegister env v ns c tx outputIndex txOut height state prevOutputs flags =
     (if fst (covenantU32 c 1) \<noteq> ns_height ns
      then Inl (badCovenant ''REGISTER covenant has nonlocal height'')
      else if state \<noteq> nameStateClosed then Inl (badCovenant ''REGISTER covenant before close'')
      else rbind (verifyNameRenewalHash env v (fst (covenantHash c 3)) height) (\<lambda>ok.
        if \<not> ok then Inl (badCovenant ''REGISTER covenant has invalid renewal hash'')
        else rbind (linkedPrevOutput prevOutputs outputIndex ''REGISTER'') (\<lambda>prev.
          if po_outpoint prev \<noteq> ns_owner ns
          then Inl (badCovenant ''REGISTER covenant does not spend winner'')
          else if to_Value txOut \<noteq> ns_value ns
          then Inl (badCovenant ''REGISTER covenant has invalid value'')
          else if isClaimable ns height (chainParams env) \<and> hardeningActive flags \<and> ns_weak ns
          then Inl (badCovenant ''REGISTER covenant in invalid name state'')
          else rbind (txOutpoint (ce_hash env) tx outputIndex) (\<lambda>outpoint.
            let data = covenantItem c 2 in
            Inr (ns\<lparr>ns_registered := True, ns_owner := outpoint,
                   ns_data := (if length data > 0 then data else ns_data ns),
                   ns_renewal := height\<rparr>)))))"

definition applyUpdate ::
  "chainEnv \<Rightarrow> nameState \<Rightarrow> Covenant \<Rightarrow> Tx \<Rightarrow> nat \<Rightarrow> nameStateKind \<Rightarrow> namePrevOutput list
    \<Rightarrow> nameState result" where
  "applyUpdate env ns c tx outputIndex state prevOutputs =
     (if fst (covenantU32 c 1) \<noteq> ns_height ns
      then Inl (badCovenant ''UPDATE covenant has nonlocal height'')
      else if state \<noteq> nameStateClosed then Inl (badCovenant ''UPDATE covenant before close'')
      else rbind (requireCurrentNameOwner prevOutputs outputIndex ns ''UPDATE'') (\<lambda>_.
        rbind (txOutpoint (ce_hash env) tx outputIndex) (\<lambda>outpoint.
          let data = covenantItem c 2 in
          Inr (ns\<lparr>ns_owner := outpoint, ns_data := (if length data > 0 then data else ns_data ns),
                 ns_transfer := 0\<rparr>))))"

definition applyRenew ::
  "chainEnv \<Rightarrow> nameBlockView \<Rightarrow> nameState \<Rightarrow> Covenant \<Rightarrow> Tx \<Rightarrow> nat \<Rightarrow> u32 \<Rightarrow> nameStateKind
    \<Rightarrow> namePrevOutput list \<Rightarrow> nameState result" where
  "applyRenew env v ns c tx outputIndex height state prevOutputs =
     (if fst (covenantU32 c 1) \<noteq> ns_height ns
      then Inl (badCovenant ''RENEW covenant has nonlocal height'')
      else if state \<noteq> nameStateClosed then Inl (badCovenant ''RENEW covenant before close'')
      else if height < ns_renewal ns + NameTreeInterval (chainParams env)
      then Inl (badCovenant ''RENEW covenant is premature'')
      else rbind (verifyNameRenewalHash env v (fst (covenantHash c 2)) height) (\<lambda>ok.
        if \<not> ok then Inl (badCovenant ''RENEW covenant has invalid renewal hash'')
        else rbind (requireCurrentNameOwner prevOutputs outputIndex ns ''RENEW'') (\<lambda>_.
          rbind (txOutpoint (ce_hash env) tx outputIndex) (\<lambda>outpoint.
            Inr (ns\<lparr>ns_owner := outpoint, ns_transfer := 0, ns_renewal := height,
                   ns_renewals := ns_renewals ns + 1\<rparr>)))))"

definition applyTransfer ::
  "chainEnv \<Rightarrow> nameState \<Rightarrow> Tx \<Rightarrow> nat \<Rightarrow> u32 \<Rightarrow> nameStateKind \<Rightarrow> u32 \<Rightarrow> namePrevOutput list
    \<Rightarrow> nameState result" where
  "applyTransfer env ns tx outputIndex height state start prevOutputs =
     (if start \<noteq> ns_height ns then Inl (badCovenant ''TRANSFER covenant has nonlocal height'')
      else if state \<noteq> nameStateClosed then Inl (badCovenant ''TRANSFER covenant before close'')
      else if ns_transfer ns \<noteq> 0 then Inl (badCovenant ''name is already transferring'')
      else rbind (requireCurrentNameOwner prevOutputs outputIndex ns ''TRANSFER'') (\<lambda>_.
        rbind (txOutpoint (ce_hash env) tx outputIndex) (\<lambda>outpoint.
          Inr (ns\<lparr>ns_owner := outpoint, ns_transfer := height\<rparr>))))"

definition applyFinalize ::
  "chainEnv \<Rightarrow> nameBlockView \<Rightarrow> nameState \<Rightarrow> Covenant \<Rightarrow> Tx \<Rightarrow> nat \<Rightarrow> u32 \<Rightarrow> nameStateKind
    \<Rightarrow> namePrevOutput list \<Rightarrow> nameState result" where
  "applyFinalize env v ns c tx outputIndex height state prevOutputs =
     (if fst (covenantU32 c 1) \<noteq> ns_height ns
      then Inl (badCovenant ''FINALIZE covenant has nonlocal height'')
      else if state \<noteq> nameStateClosed then Inl (badCovenant ''FINALIZE covenant before close'')
      else if ns_transfer ns = 0 then Inl (badCovenant ''FINALIZE covenant without transfer'')
      else if height < ns_transfer ns + NameTransferLockup (chainParams env)
      then Inl (badCovenant ''FINALIZE covenant before transfer maturity'')
      else
        let weak = (fst (covenantU8 c 3) AND 1 \<noteq> 0) in
        if weak \<noteq> ns_weak ns \<or> fst (covenantU32 c 4) \<noteq> ns_claimed ns
           \<or> fst (covenantU32 c 5) \<noteq> ns_renewals ns
        then Inl (badCovenant ''FINALIZE covenant state transfer mismatch'')
        else rbind (verifyNameRenewalHash env v (fst (covenantHash c 6)) height) (\<lambda>ok.
          if \<not> ok then Inl (badCovenant ''FINALIZE covenant has invalid renewal hash'')
          else rbind (requireCurrentNameOwner prevOutputs outputIndex ns ''FINALIZE'') (\<lambda>_.
            rbind (txOutpoint (ce_hash env) tx outputIndex) (\<lambda>outpoint.
              Inr (ns\<lparr>ns_owner := outpoint, ns_transfer := 0, ns_renewal := height,
                     ns_renewals := ns_renewals ns + 1\<rparr>)))))"

definition applyRevoke ::
  "nameState \<Rightarrow> nat \<Rightarrow> u32 \<Rightarrow> nameStateKind \<Rightarrow> u32 \<Rightarrow> namePrevOutput list \<Rightarrow> nameState result" where
  "applyRevoke ns outputIndex height state start prevOutputs =
     (if start \<noteq> ns_height ns then Inl (badCovenant ''REVOKE covenant has nonlocal height'')
      else if state \<noteq> nameStateClosed then Inl (badCovenant ''REVOKE covenant before close'')
      else if ns_revoked ns \<noteq> 0 then Inl (badCovenant ''name is already revoked'')
      else rbind (requireCurrentNameOwner prevOutputs outputIndex ns ''REVOKE'') (\<lambda>_.
        Inr (ns\<lparr>ns_revoked := height, ns_transfer := 0, ns_data := []\<rparr>)))"

text \<open>The switch over the covenant type.\<close>

definition transition ::
  "chainEnv \<Rightarrow> nameBlockView \<Rightarrow> nameState \<Rightarrow> hash \<Rightarrow> Tx \<Rightarrow> nat \<Rightarrow> TxOut \<Rightarrow> u32 \<Rightarrow> int
    \<Rightarrow> namePrevOutput list \<Rightarrow> handshakeDeploymentFlags \<Rightarrow> nameState result" where
  "transition env v ns nameHash tx outputIndex txOut height prevTime prevOutputs flags =
     (let c = to_Covenant txOut; t = cov_Type c;
          state = ns_state ns height (chainParams env);
          start = fst (covenantU32 c 1) in
      if t = CovenantClaim
      then applyClaim env v ns c tx outputIndex height prevTime state (to_Value txOut) flags
      else if t = CovenantOpen then applyOpen env ns nameHash height state flags
      else if t = CovenantBid then applyBid ns state start
      else if t = CovenantReveal then applyReveal env ns tx outputIndex txOut state start prevOutputs
      else if t = CovenantRedeem then applyRedeem ns outputIndex state start prevOutputs
      else if t = CovenantRegister
      then applyRegister env v ns c tx outputIndex txOut height state prevOutputs flags
      else if t = CovenantUpdate then applyUpdate env ns c tx outputIndex state prevOutputs
      else if t = CovenantRenew then applyRenew env v ns c tx outputIndex height state prevOutputs
      else if t = CovenantTransfer
      then applyTransfer env ns tx outputIndex height state start prevOutputs
      else if t = CovenantFinalize
      then applyFinalize env v ns c tx outputIndex height state prevOutputs
      else if t = CovenantRevoke then applyRevoke ns outputIndex height state start prevOutputs
      else Inl (badCovenant ''unknown name covenant''))"

section \<open>Applying outputs and transactions\<close>

definition applyCovenantOutput ::
  "chainEnv \<Rightarrow> nameDB option \<Rightarrow> Tx \<Rightarrow> nat \<Rightarrow> TxOut \<Rightarrow> u32 \<Rightarrow> int \<Rightarrow> namePrevOutput list
    \<Rightarrow> handshakeDeploymentFlags \<Rightarrow> nameBlockView \<Rightarrow> unit result \<times> nameBlockView" where
  "applyCovenantOutput env dbTx tx outputIndex txOut height prevTime prevOutputs flags v =
     (let c = to_Covenant txOut; params = chainParams env; (nameHash, ok) = covenantHash c 0 in
      if \<not> ok then (Inl (badCovenant ''missing covenant name hash''), v) else
      (case view_get dbTx nameHash v of
         (Inl e, v) \<Rightarrow> (Inl e, v)
       | (Inr before, v) \<Rightarrow>
           if isNull before \<and> cov_Type c \<noteq> CovenantClaim \<and> cov_Type c \<noteq> CovenantOpen
           then (Inl (RuleError ''ErrInvalidCovenant'' ''name state is missing for covenant''), v)
           else
             let ns = (if isNull before then ns_set (covenantItem c 2) height before else before);
                 ns = maybeExpire height params ns;
                 v = putState nameHash ns v in
             (case transition env v ns nameHash tx outputIndex txOut height prevTime prevOutputs flags of
                Inl e \<Rightarrow> (Inl e, v)
              | Inr ns' \<Rightarrow> (Inr (), recordChange before ns' (putState nameHash ns' v)))))"

fun applyOutputs ::
  "chainEnv \<Rightarrow> nameDB option \<Rightarrow> Tx \<Rightarrow> nat \<Rightarrow> TxOut list \<Rightarrow> u32 \<Rightarrow> int \<Rightarrow> namePrevOutput list
    \<Rightarrow> handshakeDeploymentFlags \<Rightarrow> nameBlockView \<Rightarrow> unit result \<times> nameBlockView" where
  "applyOutputs env dbTx tx i [] height prevTime prevOutputs flags v = (Inr (), v)"
| "applyOutputs env dbTx tx i (txOut # outs) height prevTime prevOutputs flags v =
     (if \<not> isNameCovenant (cov_Type (to_Covenant txOut))
      then applyOutputs env dbTx tx (Suc i) outs height prevTime prevOutputs flags v
      else
        case applyCovenantOutput env dbTx tx i txOut height prevTime prevOutputs flags v of
          (Inl e, v) \<Rightarrow> (Inl e, v)
        | (Inr _, v) \<Rightarrow> applyOutputs env dbTx tx (Suc i) outs height prevTime prevOutputs flags v)"

definition applyTx ::
  "chainEnv \<Rightarrow> nameDB option \<Rightarrow> Tx \<Rightarrow> u32 \<Rightarrow> int \<Rightarrow> namePrevOutput list
    \<Rightarrow> handshakeDeploymentFlags \<Rightarrow> nameBlockView \<Rightarrow> unit result \<times> nameBlockView" where
  "applyTx env dbTx tx height prevTime prevOutputs flags v =
     (case (if IsCoinBase tx then Inr () else verifyCovenantSpends (ce_hash env) tx prevOutputs) of
        Inl e \<Rightarrow> (Inl e, v)
      | Inr _ \<Rightarrow>
          applyOutputs env dbTx tx 0 (tx_TxOut (utx_msgTx tx)) height prevTime prevOutputs flags v)"

definition txHasNameCovenantOutput :: "Tx \<Rightarrow> bool" where
  "txHasNameCovenantOutput tx \<longleftrightarrow>
     list_ex (\<lambda>out. isNameCovenant (cov_Type (to_Covenant out))) (tx_TxOut (utx_msgTx tx))"

definition applyTxToNameView ::
  "chainEnv \<Rightarrow> nameDB \<Rightarrow> Tx \<Rightarrow> u32 \<Rightarrow> int \<Rightarrow> namePrevOutput list
    \<Rightarrow> handshakeDeploymentFlags \<Rightarrow> nameBlockView \<Rightarrow> unit result \<times> nameBlockView" where
  "applyTxToNameView env db tx height prevTime prevOutputs flags v =
     (if needsDB v \<and> txHasNameCovenantOutput tx
      then applyTx env (Some db) tx height prevTime prevOutputs flags v
      else applyTx env None tx height prevTime prevOutputs flags v)"

section \<open>Previous outputs\<close>

text \<open>
  An unspent output as the view of the unspent outputs reports it; the lookup is an argument.
\<close>

record utxoEntry =
  en_Amount :: int
  en_Address :: Address
  en_Covenant :: Covenant
  en_IsSpent :: bool

fun prevOutputsLoop :: "(OutPoint \<Rightarrow> utxoEntry option) \<Rightarrow> TxIn list \<Rightarrow> namePrevOutput list result" where
  "prevOutputsLoop LookupEntry [] = Inr []"
| "prevOutputsLoop LookupEntry (txIn # ins) =
     (case LookupEntry (ti_PreviousOutPoint txIn) of
        None \<Rightarrow> Inl (RuleError ''ErrMissingTxOut'' ''output does not exist or has already been spent'')
      | Some entry \<Rightarrow>
          if en_IsSpent entry
          then Inl (RuleError ''ErrMissingTxOut'' ''output does not exist or has already been spent'')
          else rbind (prevOutputsLoop LookupEntry ins) (\<lambda>prevs.
            Inr (\<lparr>po_outpoint = ti_PreviousOutPoint txIn, po_amount = en_Amount entry,
                   po_address = en_Address entry, po_covenant = en_Covenant entry\<rparr> # prevs)))"

definition prevOutputsFromView ::
  "(OutPoint \<Rightarrow> utxoEntry option) \<Rightarrow> Tx \<Rightarrow> namePrevOutput list result" where
  "prevOutputsFromView LookupEntry tx =
     (if IsCoinBase tx then Inr [] else prevOutputsLoop LookupEntry (tx_TxIn (utx_msgTx tx)))"

record SpentTxOut =
  st_Amount :: int
  st_Address :: Address
  st_Covenant :: Covenant

fun prevStxosLoop ::
  "SpentTxOut list \<Rightarrow> TxIn list \<Rightarrow> nat \<Rightarrow> (namePrevOutput list \<times> nat) result" where
  "prevStxosLoop stxos [] offset = Inr ([], offset)"
| "prevStxosLoop stxos (txIn # ins) offset =
     (if offset \<ge> length stxos then Inl (AssertError ''missing spent txout for name validation'')
      else
        let stxo = stxos ! offset in
        rbind (prevStxosLoop stxos ins (offset + 1)) (\<lambda>(prevs, offset).
          Inr (\<lparr>po_outpoint = ti_PreviousOutPoint txIn, po_amount = st_Amount stxo,
                 po_address = st_Address stxo, po_covenant = st_Covenant stxo\<rparr> # prevs, offset)))"

definition prevOutputsFromStxos ::
  "Tx \<Rightarrow> SpentTxOut list \<Rightarrow> nat \<Rightarrow> (namePrevOutput list \<times> nat) result" where
  "prevOutputsFromStxos tx stxos offset =
     (if IsCoinBase tx then Inr ([], offset)
      else prevStxosLoop stxos (tx_TxIn (utx_msgTx tx)) offset)"

section \<open>Standalone validation\<close>

record NameValidationView =
  vv_view :: nameBlockView
  vv_deploymentFlags :: handshakeDeploymentFlags

record nameBlockViewSnapshot =
  sn_states :: "(hash, nameState) bucket"
  sn_loaded :: "hash set option"
  sn_dirty :: "hash set"
  sn_undo :: "nameUndoEntry list"
  sn_seen :: "hash set"

definition view_snapshot :: "nameBlockView \<Rightarrow> nameBlockViewSnapshot" where
  "view_snapshot v = \<lparr>sn_states = nv_states v, sn_loaded = nv_loaded v, sn_dirty = nv_dirty v,
     sn_undo = nv_undo v, sn_seen = nv_seen v\<rparr>"

definition view_restore :: "nameBlockViewSnapshot \<Rightarrow> nameBlockView \<Rightarrow> nameBlockView" where
  "view_restore s v = v\<lparr>nv_states := sn_states s, nv_loaded := sn_loaded s, nv_dirty := sn_dirty s,
     nv_undo := sn_undo s, nv_seen := sn_seen s\<rparr>"

definition ApplyTransaction ::
  "chainEnv \<Rightarrow> nameDB \<Rightarrow> Tx \<Rightarrow> int \<Rightarrow> int \<Rightarrow> (OutPoint \<Rightarrow> utxoEntry option)
    \<Rightarrow> (OutPoint \<Rightarrow> (int \<times> bool) result) \<Rightarrow> NameValidationView
    \<Rightarrow> unit result \<times> NameValidationView" where
  "ApplyTransaction env db tx height prevTime LookupEntry ownerCoin vv =
     (let v = vv_view vv;
          snapshot = view_snapshot v;
          (err, v) =
            (case prevOutputsFromView LookupEntry tx of
               Inl e \<Rightarrow> (Inl e, v)
             | Inr prevOutputs \<Rightarrow>
                 applyTx env (Some db) tx (word_of_int height) prevTime prevOutputs
                   (vv_deploymentFlags vv) (v\<lparr>nv_ownerCoinValue := Some ownerCoin\<rparr>)) in
      case err of
        Inl e \<Rightarrow> (Inl e, vv\<lparr>vv_view := view_restore snapshot v\<rparr>)
      | Inr _ \<Rightarrow> (Inr (), vv\<lparr>vv_view := v\<rparr>))"

section \<open>What a transition keeps\<close>

lemmas transition_defs = applyClaim_def applyOpen_def applyBid_def applyReveal_def applyRedeem_def
  applyRegister_def applyUpdate_def applyRenew_def applyTransfer_def applyFinalize_def applyRevoke_def

lemma requireCurrentNameOwner_ok:
  "requireCurrentNameOwner prevs i ns cov = Inr u \<longleftrightarrow>
     i < length prevs \<and> po_outpoint (prevs ! i) = ns_owner ns"
  by (auto simp: requireCurrentNameOwner_def linkedPrevOutput_def)

lemma linkedPrevOutput_ok:
  "linkedPrevOutput prevs i cov = Inr p \<longleftrightarrow> i < length prevs \<and> p = prevs ! i"
  by (auto simp: linkedPrevOutput_def)

text \<open>When each transition succeeds, and what it leaves.\<close>

lemma applyBid_ok:
  "applyBid ns st start = Inr ns' \<longleftrightarrow> st = nameStateBidding \<and> start = ns_height ns \<and> ns' = ns"
  by (auto simp: applyBid_def)

lemma applyOpen_okD:
  "applyOpen env ns nh height st flags = Inr ns' \<Longrightarrow>
     st = nameStateOpening \<and> ns_height ns = height \<and> ns' = ns"
  by (auto simp: applyOpen_def Let_def result_simps split: if_splits)

lemma applyRedeem_ok:
  "applyRedeem ns i st start prevs = Inr ns' \<longleftrightarrow>
     start = ns_height ns \<and> nameStateClosed \<le> st \<and> i < length prevs
     \<and> po_outpoint (prevs ! i) \<noteq> ns_owner ns \<and> ns' = ns"
  by (auto simp: applyRedeem_def result_simps linkedPrevOutput_ok not_less)

lemma applyReveal_ok:
  "applyReveal env ns tx i out st start prevs = Inr ns' \<longleftrightarrow>
     start = ns_height ns \<and> st = nameStateReveal \<and> i < length prevs
     \<and> (if isNullNameOwner (ns_owner ns) \<or> ns_highest ns < to_Value out
        then \<exists>op. txOutpoint (ce_hash env) tx i = Inr op
          \<and> ns' = ns\<lparr>ns_value := ns_highest ns, ns_owner := op, ns_highest := to_Value out\<rparr>
        else ns' = (if ns_value ns < to_Value out then ns\<lparr>ns_value := to_Value out\<rparr> else ns))"
  by (auto simp: applyReveal_def result_simps linkedPrevOutput_ok)

lemma applyRegister_okD:
  "applyRegister env v ns c tx i out height st prevs flags = Inr ns' \<Longrightarrow>
     fst (covenantU32 c 1) = ns_height ns \<and> st = nameStateClosed
     \<and> i < length prevs \<and> po_outpoint (prevs ! i) = ns_owner ns \<and> to_Value out = ns_value ns
     \<and> (\<exists>op. txOutpoint (ce_hash env) tx i = Inr op
          \<and> ns' = ns\<lparr>ns_registered := True, ns_owner := op,
                ns_data := (if covenantItem c 2 \<noteq> [] then covenantItem c 2 else ns_data ns),
                ns_renewal := height\<rparr>)"
  by (auto simp: applyRegister_def result_simps linkedPrevOutput_ok Let_def split: if_splits)

lemma applyUpdate_ok:
  "applyUpdate env ns c tx i st prevs = Inr ns' \<longleftrightarrow>
     fst (covenantU32 c 1) = ns_height ns \<and> st = nameStateClosed
     \<and> i < length prevs \<and> po_outpoint (prevs ! i) = ns_owner ns
     \<and> (\<exists>op. txOutpoint (ce_hash env) tx i = Inr op
          \<and> ns' = ns\<lparr>ns_owner := op,
                ns_data := (if covenantItem c 2 \<noteq> [] then covenantItem c 2 else ns_data ns),
                ns_transfer := 0\<rparr>)"
  by (auto simp: applyUpdate_def result_simps requireCurrentNameOwner_ok Let_def)

lemma applyRenew_okD:
  "applyRenew env v ns c tx i height st prevs = Inr ns' \<Longrightarrow>
     fst (covenantU32 c 1) = ns_height ns \<and> st = nameStateClosed
     \<and> i < length prevs \<and> po_outpoint (prevs ! i) = ns_owner ns
     \<and> (\<exists>op. txOutpoint (ce_hash env) tx i = Inr op
          \<and> ns' = ns\<lparr>ns_owner := op, ns_transfer := 0, ns_renewal := height,
                ns_renewals := ns_renewals ns + 1\<rparr>)"
  by (auto simp: applyRenew_def result_simps requireCurrentNameOwner_ok Let_def split: if_splits)

lemma applyTransfer_ok:
  "applyTransfer env ns tx i height st start prevs = Inr ns' \<longleftrightarrow>
     start = ns_height ns \<and> st = nameStateClosed \<and> ns_transfer ns = 0
     \<and> i < length prevs \<and> po_outpoint (prevs ! i) = ns_owner ns
     \<and> (\<exists>op. txOutpoint (ce_hash env) tx i = Inr op
          \<and> ns' = ns\<lparr>ns_owner := op, ns_transfer := height\<rparr>)"
  by (auto simp: applyTransfer_def result_simps requireCurrentNameOwner_ok)

lemma applyFinalize_okD:
  "applyFinalize env v ns c tx i height st prevs = Inr ns' \<Longrightarrow>
     fst (covenantU32 c 1) = ns_height ns \<and> st = nameStateClosed
     \<and> ns_transfer ns \<noteq> 0 \<and> ns_transfer ns + NameTransferLockup (chainParams env) \<le> height
     \<and> i < length prevs \<and> po_outpoint (prevs ! i) = ns_owner ns
     \<and> (\<exists>op. txOutpoint (ce_hash env) tx i = Inr op
          \<and> ns' = ns\<lparr>ns_owner := op, ns_transfer := 0, ns_renewal := height,
                ns_renewals := ns_renewals ns + 1\<rparr>)"
  by (auto simp: applyFinalize_def result_simps requireCurrentNameOwner_ok Let_def split: if_splits)

lemma applyRevoke_ok:
  "applyRevoke ns i height st start prevs = Inr ns' \<longleftrightarrow>
     start = ns_height ns \<and> st = nameStateClosed \<and> ns_revoked ns = 0
     \<and> i < length prevs \<and> po_outpoint (prevs ! i) = ns_owner ns
     \<and> ns' = ns\<lparr>ns_revoked := height, ns_transfer := 0, ns_data := []\<rparr>"
  by (auto simp: applyRevoke_def result_simps requireCurrentNameOwner_ok)

lemma applyClaim_okD:
  "applyClaim env v ns c tx i height prevTime st val flags = Inr ns' \<Longrightarrow>
     (st = nameStateOpening \<or> st = nameStateLocked \<or> (st = nameStateClosed \<and> \<not> ns_registered ns))
     \<and> \<not> ns_expired ns
     \<and> (\<exists>op claimed. txOutpoint (ce_hash env) tx i = Inr op
          \<and> ns' = ns\<lparr>ns_height := height, ns_renewal := height, ns_claimed := claimed,
                ns_value := 0, ns_owner := op, ns_highest := 0,
                ns_weak := fst (covenantU8 c 3) AND 1 \<noteq> 0\<rparr>)"
  unfolding applyClaim_def Let_def
  by (auto simp: result_simps split: if_splits)

end
