(* ===== verification/Auction.thy ===== *)
theory Auction
  imports Name_Safety
begin

text \<open>
  The auction (the REVEAL and REGISTER cases of src/blockchain/namevalidate.go) as a sequence of
  revealed bids: the state that the reveals leave holds the highest bid, the second highest bid
  and the output of the first highest bidder, which is who registers and what is paid.
\<close>

section \<open>Reveals in order\<close>

record reveal =
  rv_height :: u32
  rv_tx :: Tx
  rv_index :: nat
  rv_out :: TxOut
  rv_prevs :: "namePrevOutput list"

definition rv_value :: "reveal \<Rightarrow> int" where
  "rv_value r = to_Value (rv_out r)"

definition revealOne :: "chainEnv \<Rightarrow> reveal \<Rightarrow> nameState \<Rightarrow> nameState result" where
  "revealOne env r ns =
     applyReveal env ns (rv_tx r) (rv_index r) (rv_out r)
       (ns_state ns (rv_height r) (chainParams env))
       (fst (covenantU32 (to_Covenant (rv_out r)) 1)) (rv_prevs r)"

fun revealAll :: "chainEnv \<Rightarrow> reveal list \<Rightarrow> nameState \<Rightarrow> nameState result" where
  "revealAll env [] ns = Inr ns"
| "revealAll env (r # rs) ns = rbind (revealOne env r ns) (revealAll env rs)"

lemma revealAll_snoc:
  "revealAll env (rs @ [r]) ns = rbind (revealAll env rs ns) (revealOne env r)"
  by (induction rs arbitrary: ns) (auto simp: rbind_def split: sum.splits)

section \<open>The second price\<close>

definition secondPrice :: "int list \<Rightarrow> int" where
  "secondPrice vs = (if length vs < 2 then 0 else last (butlast (sort vs)))"

definition winner :: "reveal list \<Rightarrow> reveal" where
  "winner rs = hd (filter (\<lambda>r. rv_value r = Max (rv_value ` set rs)) rs)"

lemma insort_snoc:
  "sorted (zs @ [m]) \<Longrightarrow> insort x (zs @ [m]) = (if x \<le> m then insort x zs @ [m] else zs @ [m, x])"
  by (induction zs) (auto simp: sorted_append)

lemma last_insort:
  "sorted zs \<Longrightarrow> zs \<noteq> [] \<Longrightarrow> last (insort x zs) = max x (last zs)"
proof (induction zs rule: rev_induct)
  case (snoc m zs)
  then show ?case by (auto simp: insort_snoc)
qed simp

lemma sort_snoc: "sort (vs @ [x]) = insort x (sort vs)"
  by (induction vs) (auto simp: insort_left_comm)

lemma sort_last_Max:
  assumes "vs \<noteq> []"
  obtains zs where "sort vs = zs @ [Max (set vs)]" and "length zs = length vs - 1"
    and "sorted (zs @ [Max (set vs)])"
proof -
  from assms obtain zs m where zm: "sort vs = zs @ [m]"
    by (metis length_0_conv length_sort rev_exhaust)
  have so: "sorted (zs @ [m])" "set (zs @ [m]) = set vs" "length (zs @ [m]) = length vs"
    unfolding zm [symmetric] by simp_all
  then have "\<forall>v \<in> set vs. v \<le> m" "m \<in> set vs"
    by (auto simp: sorted_append)
  then have "m = Max (set vs)"
    by (intro Max_eqI [symmetric]) auto
  moreover have "length zs = length vs - 1"
    using so(3) by simp
  ultimately show thesis
    using that zm so(1) by metis
qed

lemma secondPrice_snoc:
  assumes "vs \<noteq> []" and "0 \<le> x"
  shows "secondPrice (vs @ [x]) = (if Max (set vs) < x then Max (set vs) else max x (secondPrice vs))"
proof -
  from assms(1) obtain zs where zs: "sort vs = zs @ [Max (set vs)]" "length zs = length vs - 1"
    "sorted (zs @ [Max (set vs)])"
    by (rule sort_last_Max)
  have l: "length vs = Suc (length zs)"
    using zs(2) assms(1) by (cases vs) auto
  have "zs = [] \<or> last (insort x zs) = max x (last zs)"
    using zs(3) last_insort [of zs x] by (auto simp: sorted_append)
  then show ?thesis
    using l assms(2) by (auto simp: secondPrice_def sort_snoc zs(1) insort_snoc [OF zs(3)] butlast_append)
qed

lemma Max_snoc: "vs \<noteq> [] \<Longrightarrow> Max (set (vs @ [x])) = max x (Max (set vs))"
  by (simp add: Max_insert)

section \<open>The state after the reveals\<close>

definition freshAuction :: "nameState \<Rightarrow> bool" where
  "freshAuction ns \<longleftrightarrow> isNullNameOwner (ns_owner ns) \<and> ns_value ns = 0 \<and> ns_highest ns = 0"

definition bidOk :: "reveal \<Rightarrow> bool" where
  "bidOk r \<longleftrightarrow> 0 \<le> rv_value r \<and> rv_index r < 2 ^ 32 - 1"

lemma txOutpoint_not_null:
  assumes "txOutpoint H tx i = Inr op" and "i < 2 ^ 32 - 1"
  shows "\<not> isNullNameOwner op"
proof -
  have "unat (of_nat i :: u32) = i"
    using assms(2) by (simp add: unat_of_nat)
  then have "(of_nat i :: u32) \<noteq> 0xffffffff"
    using assms(2) by auto
  then show ?thesis
    using assms(1) by (auto simp: txOutpoint_def result_simps isNullNameOwner_def)
qed

definition auctionInv :: "chainEnv \<Rightarrow> reveal list \<Rightarrow> nameState \<Rightarrow> bool" where
  "auctionInv env rs ns \<longleftrightarrow>
     ns_highest ns = Max (rv_value ` set rs) \<and> ns_value ns = secondPrice (map rv_value rs)
     \<and> txOutpoint (ce_hash env) (rv_tx (winner rs)) (rv_index (winner rs)) = Inr (ns_owner ns)
     \<and> \<not> isNullNameOwner (ns_owner ns)"

lemma winner_snoc:
  assumes "rs \<noteq> []"
  shows "winner (rs @ [r]) = (if Max (rv_value ` set rs) < rv_value r then r else winner rs)"
proof -
  let ?m = "Max (rv_value ` set rs)"
  have m: "Max (rv_value ` set (rs @ [r])) = max (rv_value r) ?m"
    using Max_snoc [of "map rv_value rs" "rv_value r"] assms by simp
  have le: "rv_value s \<le> ?m" if "s \<in> set rs" for s
    using that by (intro Max_ge) auto
  have "?m \<in> rv_value ` set rs"
    using assms by (intro Max_in) auto
  then have "filter (\<lambda>r. rv_value r = ?m) rs \<noteq> []"
    by (auto simp: filter_empty_conv)
  moreover have "rv_value s \<noteq> rv_value r" if "?m < rv_value r" "s \<in> set rs" for s
    using that(1) le [OF that(2)] by linarith
  ultimately show ?thesis
    by (cases "?m < rv_value r") (simp_all only: winner_def m max_def, simp_all add: hd_append)
qed

lemma auctionInv_first:
  assumes "freshAuction ns0" and "bidOk r" and "revealOne env r ns0 = Inr ns"
  shows "auctionInv env [r] ns"
proof -
  from assms(1,3) obtain op where op: "txOutpoint (ce_hash env) (rv_tx r) (rv_index r) = Inr op"
    and ns: "ns = ns0\<lparr>ns_value := 0, ns_owner := op, ns_highest := rv_value r\<rparr>"
    by (auto simp: revealOne_def applyReveal_ok freshAuction_def rv_value_def)
  then show ?thesis
    using txOutpoint_not_null [OF op] assms(2)
    by (simp add: auctionInv_def winner_def secondPrice_def bidOk_def)
qed

lemma auctionInv_next:
  assumes "auctionInv env rs ns0" and "rs \<noteq> []" and "bidOk r" and "revealOne env r ns0 = Inr ns"
  shows "auctionInv env (rs @ [r]) ns"
proof -
  have ne: "map rv_value rs \<noteq> []" and r: "0 \<le> rv_value r"
    using assms(2,3) by (simp_all add: bidOk_def)
  have m: "Max (rv_value ` set (rs @ [r])) = max (rv_value r) (ns_highest ns0)"
    and p: "secondPrice (map rv_value (rs @ [r]))
      = (if ns_highest ns0 < rv_value r then ns_highest ns0 else max (rv_value r) (ns_value ns0))"
    and w: "winner (rs @ [r]) = (if ns_highest ns0 < rv_value r then r else winner rs)"
    using assms(1) Max_snoc [OF ne, of "rv_value r"] secondPrice_snoc [OF ne r] winner_snoc [OF assms(2), of r]
    by (simp_all add: auctionInv_def)
  have ok: "applyReveal env ns0 (rv_tx r) (rv_index r) (rv_out r)
      (ns_state ns0 (rv_height r) (chainParams env)) (fst (covenantU32 (to_Covenant (rv_out r)) 1))
      (rv_prevs r) = Inr ns"
    using assms(4) by (simp add: revealOne_def)
  show ?thesis
  proof (cases "ns_highest ns0 < rv_value r")
    case True
    with ok obtain op where op: "txOutpoint (ce_hash env) (rv_tx r) (rv_index r) = Inr op"
      and ns: "ns = ns0\<lparr>ns_value := ns_highest ns0, ns_owner := op, ns_highest := rv_value r\<rparr>"
      by (auto simp: applyReveal_ok rv_value_def)
    with True show ?thesis
      using txOutpoint_not_null [OF op] assms(3) unfolding auctionInv_def m p w
      by (simp add: bidOk_def)
  next
    case False
    with ok assms(1) have "ns = (if ns_value ns0 < rv_value r then ns0\<lparr>ns_value := rv_value r\<rparr> else ns0)"
      by (simp add: applyReveal_ok rv_value_def auctionInv_def)
    with False assms(1) show ?thesis
      unfolding auctionInv_def m p w by simp
  qed
qed

lemma revealAll_auction:
  assumes "freshAuction ns0" and "list_all bidOk rs" and "rs \<noteq> []"
    and "revealAll env rs ns0 = Inr ns"
  shows "auctionInv env rs ns"
  using assms(3,2,4)
proof (induction rs arbitrary: ns rule: rev_nonempty_induct)
  case (single r)
  then show ?case
    using auctionInv_first [OF assms(1)] by (simp add: rbind_eq_Inr)
next
  case (snoc r rs)
  from snoc.prems(2) obtain ns1 where "revealAll env rs ns0 = Inr ns1" "revealOne env r ns1 = Inr ns"
    unfolding revealAll_snoc rbind_eq_Inr by blast
  then show ?case
    using auctionInv_next [OF snoc.IH snoc.hyps] snoc.prems(1) by simp
qed

section \<open>Properties\<close>

text \<open>C3: The auction is a second-price auction won by the first highest bid. When at least one bid
  is revealed for a freshly opened name, the state holds the largest revealed value as its highest
  bid, the second largest (zero for a single bid) as its price, and the output of the first bidder
  who reached the maximum as its owner; and a REGISTER that is accepted on that state spends
  exactly that output and carries exactly the second price.\<close>

theorem auction_second_price:
  assumes "freshAuction ns0" and "list_all bidOk rs" and "rs \<noteq> []"
    and "revealAll env rs ns0 = Inr ns"
    and "cov_Type (to_Covenant out) = CovenantRegister"
    and "transition env v ns nameHash tx i out height prevTime prevs flags = Inr ns'"
  shows "ns_highest ns = Max (rv_value ` set rs)
    \<and> ns_value ns = secondPrice (map rv_value rs)
    \<and> txOutpoint (ce_hash env) (rv_tx (winner rs)) (rv_index (winner rs)) = Inr (po_outpoint (prevs ! i))
    \<and> i < length prevs \<and> to_Value out = secondPrice (map rv_value rs)"
proof -
  have "auctionInv env rs ns"
    using assms(1-4) by (rule revealAll_auction)
  moreover have "applyRegister env v ns (to_Covenant out) tx i out height
      (ns_state ns height (chainParams env)) prevs flags = Inr ns'"
    using assms(5,6) by (simp add: transition_def)
  ultimately show ?thesis
    using applyRegister_okD by (auto simp: auctionInv_def)
qed

definition ex_reveal :: "byte \<Rightarrow> int \<Rightarrow> reveal" where
  "ex_reveal k val = \<lparr>rv_height = 15, rv_tx = ex_tx CovenantReveal [[k]], rv_index = 0,
     rv_out = \<lparr>to_Value = val, to_Address = ex_addr,
       to_Covenant = \<lparr>cov_Type = CovenantReveal, cov_Items = [ex_name, PutUint32 1, zeroHash]\<rparr>\<rparr>,
     rv_prevs = [\<lparr>po_outpoint = ex_owner, po_amount = 20, po_address = ex_addr,
       po_covenant = \<lparr>cov_Type = CovenantBid, cov_Items = []\<rparr>\<rparr>]\<rparr>"

definition ex_auction :: nameState where
  "ex_auction = (newNameState ex_name)\<lparr>ns_name := [97, 98], ns_height := 1, ns_renewal := 1\<rparr>"

definition ex_won :: nameState where
  "ex_won = ex_auction\<lparr>ns_value := 9, ns_owner := \<lparr>op_Hash = zeroHash, op_Index = 0\<rparr>, ns_highest := 9\<rparr>"

definition ex_register :: TxOut where
  "ex_register = \<lparr>to_Value = 9, to_Address = ex_addr, to_Covenant = \<lparr>cov_Type = CovenantRegister,
     cov_Items = [ex_name, PutUint32 1, [], zeroHash]\<rparr>\<rparr>"

definition ex_prev :: namePrevOutput where
  "ex_prev = \<lparr>po_outpoint = \<lparr>op_Hash = zeroHash, op_Index = 0\<rparr>, po_amount = 9,
     po_address = ex_addr, po_covenant = \<lparr>cov_Type = CovenantReveal, cov_Items = []\<rparr>\<rparr>"

theorem auction_second_price_witness:
  "to_Value ex_register
     = secondPrice (map rv_value [ex_reveal 1 4, ex_reveal 2 9, ex_reveal 3 9, ex_reveal 4 7])"
proof -
  let ?rs = "[ex_reveal 1 4, ex_reveal 2 9, ex_reveal 3 9, ex_reveal 4 7]"
  let ?tr = "transition ex_env newLazyNameBlockView ex_won ex_name (ex_tx CovenantRegister []) 0
    ex_register 30 0 [ex_prev] (vv_deploymentFlags ex_view)"
  have f: "freshAuction ex_auction" by code_simp
  have b: "list_all bidOk ?rs" by (simp add: ex_reveal_def bidOk_def rv_value_def)
  have r: "revealAll ex_env ?rs ex_auction = Inr ex_won" by code_simp
  have t: "?tr = Inr (ex_won\<lparr>ns_registered := True, ns_renewal := 30\<rparr>)" by code_simp
  have c: "cov_Type (to_Covenant ex_register) = CovenantRegister" by code_simp
  show ?thesis
    using auction_second_price [OF f b list.distinct(2) r c t] by (elim conjE)
qed

end
