(* ===== verification/Urkel_Bits.thy ===== *)
theory Urkel_Bits
  imports Wire_Block "HOL-Library.Sublist"
begin

text \<open>
  Bit strings of the name tree (src/blockchain/urkel.go, \<open>urkelBits\<close>): a size and a 32-byte array,
  most significant bit first. They are related to lists of booleans, on which the tree is
  understood. A bit index outside the array is a panic; the loops \<open>count\<close>, \<open>countFrom\<close> and \<open>slice\<close>
  stay inside it because a size never exceeds 256.
\<close>

section \<open>Bits of a byte array\<close>

definition urkelKeyBits :: nat where "urkelKeyBits = HashSize * 8"

definition urkelBit :: "bytes \<Rightarrow> nat \<Rightarrow> bool" where
  "urkelBit key index \<longleftrightarrow> index div 8 < length key \<and> bit (key ! (index div 8)) (7 - index mod 8)"

definition urkelHasBit :: "bytes \<Rightarrow> nat \<Rightarrow> bool result" where
  "urkelHasBit key index =
     (if index div 8 < length key then Inr (urkelBit key index)
      else Inl (Panic ''index out of range''))"

definition urkelSetBit :: "bytes \<Rightarrow> nat \<Rightarrow> bytes" where
  "urkelSetBit key index =
     key[index div 8 := key ! (index div 8) OR push_bit (7 - index mod 8) 1]"

definition kbits :: "bytes \<Rightarrow> bool list" where
  "kbits key = map (urkelBit key) [0..<8 * length key]"

lemma length_kbits [simp]: "length (kbits key) = 8 * length key"
  by (simp add: kbits_def)

lemma nth_kbits [simp]: "i < 8 * length key \<Longrightarrow> kbits key ! i = urkelBit key i"
  by (simp add: kbits_def)

lemma urkelHasBit_ok: "i < 8 * length key \<Longrightarrow> urkelHasBit key i = Inr (kbits key ! i)"
  by (simp add: urkelHasBit_def less_mult_imp_div_less mult.commute)

lemma urkelHasBit_panics: "8 * length key \<le> i \<Longrightarrow> urkelHasBit key i = Inl (Panic ''index out of range'')"
  by (simp add: urkelHasBit_def not_less)

lemma urkelBit_bit: "o' < length key \<Longrightarrow> b < 8 \<Longrightarrow> urkelBit key (8 * o' + b) \<longleftrightarrow> bit (key ! o') (7 - b)"
  by (simp add: urkelBit_def)

lemma byte_eqI: "(\<And>b. b < 8 \<Longrightarrow> bit x (7 - b) = bit y (7 - b)) \<Longrightarrow> x = (y :: byte)"
proof (rule bit_word_eqI)
  fix n
  assume h: "\<And>b. b < 8 \<Longrightarrow> bit x (7 - b) = bit y (7 - b)" and "n < LENGTH(8)"
  then have "7 - n < 8" "7 - (7 - n) = n" by auto
  with h [of "7 - n"] show "bit x n = bit y n" by simp
qed

lemma urkelBit_ext:
  assumes "length k = length k'" and "\<And>i. i < 8 * length k \<Longrightarrow> urkelBit k i = urkelBit k' i"
  shows "k = k'"
proof (rule nth_equalityI)
  show "length k = length k'" by (rule assms(1))
  fix o' assume o: "o' < length k"
  show "k ! o' = k' ! o'"
  proof (rule byte_eqI)
    fix b :: nat assume "b < 8"
    then have "8 * o' + b < 8 * length k" using o by simp
    from assms(2) [OF this] show "bit (k ! o') (7 - b) = bit (k' ! o') (7 - b)"
      using o \<open>b < 8\<close> assms(1) by (simp add: urkelBit_bit)
  qed
qed

lemma kbits_inject: "length k = length k' \<Longrightarrow> kbits k = kbits k' \<longleftrightarrow> k = k'"
proof
  assume l: "length k = length k'" and e: "kbits k = kbits k'"
  have "urkelBit k i = urkelBit k' i" if "i < 8 * length k" for i
    using that l e nth_kbits [of i k] nth_kbits [of i k'] by simp
  with l show "k = k'" by (rule urkelBit_ext)
qed simp

lemma length_urkelSetBit [simp]: "length (urkelSetBit d i) = length d"
  by (simp add: urkelSetBit_def)

lemma urkelBit_urkelSetBit:
  assumes "i < 8 * length d"
  shows "urkelBit (urkelSetBit d i) j \<longleftrightarrow> j = i \<or> urkelBit d j"
proof (cases "j div 8 = i div 8")
  case True
  have r: "i div 8 < length d" using assms by (simp add: less_mult_imp_div_less mult.commute)
  have "j = 8 * (j div 8) + j mod 8" "i = 8 * (i div 8) + i mod 8" by simp_all
  then have e: "j mod 8 = i mod 8 \<longleftrightarrow> j = i" using True by metis
  have "j mod 8 < 8" "i mod 8 < 8" by simp_all
  then have "7 - i mod 8 = 7 - j mod 8 \<longleftrightarrow> j mod 8 = i mod 8" by arith
  with r e show ?thesis
    by (auto simp: urkelBit_def urkelSetBit_def True bit_or_iff bit_exp_iff possible_bit_word)
next
  case False
  then show ?thesis by (auto simp: urkelBit_def urkelSetBit_def nth_list_update)
qed

section \<open>Bit strings\<close>

record urkelBits =
  ub_size :: nat
  ub_data :: hash

definition emptyUrkelBits :: urkelBits where
  "emptyUrkelBits = \<lparr>ub_size = 0, ub_data = zeroHash\<rparr>"

definition urkelBitsFromKey :: "hash \<Rightarrow> urkelBits" where
  "urkelBitsFromKey key = \<lparr>ub_size = urkelKeyBits, ub_data = key\<rparr>"

definition bits_get :: "urkelBits \<Rightarrow> nat \<Rightarrow> bool" where
  "bits_get b index = urkelBit (ub_data b) index"

definition bits_byteSize :: "urkelBits \<Rightarrow> nat" where
  "bits_byteSize b = (ub_size b + 7) div 8"

primrec countLoop :: "urkelBits \<Rightarrow> nat \<Rightarrow> bytes \<Rightarrow> nat \<Rightarrow> nat \<Rightarrow> nat \<Rightarrow> nat" where
  "countLoop b index key depth 0 matched = matched"
| "countLoop b index key depth (Suc todo) matched =
     (if bits_get b (index + matched) \<noteq> urkelBit key (depth + matched) then matched
      else countLoop b index key depth todo (matched + 1))"

definition bits_count :: "urkelBits \<Rightarrow> bytes \<Rightarrow> nat \<Rightarrow> nat" where
  "bits_count b key depth =
     (let limit = min (length key * 8 - depth) (ub_size b)
      in countLoop b 0 key depth limit 0)"

definition bits_has :: "urkelBits \<Rightarrow> bytes \<Rightarrow> nat \<Rightarrow> bool" where
  "bits_has b key depth \<longleftrightarrow> bits_count b key depth = ub_size b"

definition bits_countFrom :: "urkelBits \<Rightarrow> nat \<Rightarrow> bytes \<Rightarrow> nat \<Rightarrow> nat" where
  "bits_countFrom b index key depth =
     (let limit = min (length key * 8 - depth) (ub_size b - index)
      in countLoop b index key depth limit 0)"

definition bits_slice :: "urkelBits \<Rightarrow> nat \<Rightarrow> nat \<Rightarrow> urkelBits" where
  "bits_slice b start end' =
     (let size = end' - start in
      if size = 0 then emptyUrkelBits
      else \<lparr>ub_size = size,
            ub_data = fold (\<lambda>i d. if bits_get b (start + i) then urkelSetBit d i else d)
                        [0..<size] zeroHash\<rparr>)"

definition bits_split :: "urkelBits \<Rightarrow> nat \<Rightarrow> urkelBits \<times> urkelBits" where
  "bits_split b index = (bits_slice b 0 index, bits_slice b (index + 1) (ub_size b))"

definition bits_collide :: "urkelBits \<Rightarrow> bytes \<Rightarrow> nat \<Rightarrow> urkelBits" where
  "bits_collide b key depth =
     (let size = bits_countFrom b depth key depth in bits_slice b depth (depth + size))"

section \<open>Bit strings as lists of booleans\<close>

definition ubits :: "urkelBits \<Rightarrow> bool list" where
  "ubits b = map (bits_get b) [0..<ub_size b]"

definition bits_ok :: "urkelBits \<Rightarrow> bool" where
  "bits_ok b \<longleftrightarrow> length (ub_data b) = HashSize \<and> ub_size b \<le> urkelKeyBits"

definition bits_canon :: "urkelBits \<Rightarrow> bool" where
  "bits_canon b \<longleftrightarrow> bits_ok b \<and> (\<forall>i\<in>{ub_size b..<urkelKeyBits}. \<not> bits_get b i)"

lemma length_ubits [simp]: "length (ubits b) = ub_size b"
  by (simp add: ubits_def)

lemma nth_ubits [simp]: "i < ub_size b \<Longrightarrow> ubits b ! i = bits_get b i"
  by (simp add: ubits_def)

lemma ubits_urkelBitsFromKey [simp]: "length key = HashSize \<Longrightarrow> ubits (urkelBitsFromKey key) = kbits key"
  by (simp add: ubits_def urkelBitsFromKey_def kbits_def bits_get_def urkelKeyBits_def mult.commute)

lemma bits_ok_urkelBitsFromKey [simp]: "length key = HashSize \<Longrightarrow> bits_ok (urkelBitsFromKey key)"
  by (simp add: bits_ok_def urkelBitsFromKey_def)

lemma ub_size_urkelBitsFromKey [simp]: "ub_size (urkelBitsFromKey key) = urkelKeyBits"
  by (simp add: urkelBitsFromKey_def)

lemma bits_canonD: "bits_canon b \<Longrightarrow> bits_ok b"
  by (simp add: bits_canon_def)

lemma bits_canon_inject:
  assumes "bits_canon b" "bits_canon b'" "ubits b = ubits b'"
  shows "b = b'"
proof -
  have s: "ub_size b = ub_size b'" using assms(3) by (metis length_ubits)
  have l: "length (ub_data b) = HashSize" "length (ub_data b') = HashSize"
    using assms by (auto simp: bits_canon_def bits_ok_def)
  have "ub_data b = ub_data b'"
  proof (rule urkelBit_ext)
    show "length (ub_data b) = length (ub_data b')" using l by simp
    fix i assume i: "i < 8 * length (ub_data b)"
    show "urkelBit (ub_data b) i = urkelBit (ub_data b') i"
    proof (cases "i < ub_size b")
      case True
      then have "bits_get b i = bits_get b' i" using assms(3) s nth_ubits by metis
      then show ?thesis by (simp add: bits_get_def)
    next
      case False
      then have "i \<in> {ub_size b..<urkelKeyBits}" using i l by (simp add: urkelKeyBits_def)
      with assms s show ?thesis by (auto simp: bits_canon_def bits_get_def)
    qed
  qed
  with s show ?thesis by simp
qed

subsection \<open>The common prefix computed by the counting loops\<close>

definition lcp :: "'a list \<Rightarrow> 'a list \<Rightarrow> nat" where
  "lcp xs ys = length (longest_common_prefix xs ys)"

lemma lcp_le: "lcp xs ys \<le> length xs" "lcp xs ys \<le> length ys"
  unfolding lcp_def
  by (auto intro: prefix_length_le longest_common_prefix_prefix1 longest_common_prefix_prefix2)

lemma lcp_take: "take (lcp xs ys) xs = take (lcp xs ys) ys"
  by (induction xs ys rule: longest_common_prefix.induct) (auto simp: lcp_def)

lemma lcp_differ: "lcp xs ys < length xs \<Longrightarrow> lcp xs ys < length ys \<Longrightarrow> xs ! lcp xs ys \<noteq> ys ! lcp xs ys"
  by (induction xs ys rule: longest_common_prefix.induct) (auto simp: lcp_def)

lemma lcp_full: "lcp xs ys = length xs \<longleftrightarrow> prefix xs ys"
  by (induction xs ys rule: longest_common_prefix.induct) (auto simp: lcp_def)

lemma lcp_eqI:
  assumes "m \<le> length xs" "m \<le> length ys" "take m xs = take m ys"
    and "m < length xs \<Longrightarrow> m < length ys \<Longrightarrow> xs ! m \<noteq> ys ! m"
  shows "lcp xs ys = m"
  using assms
proof (induction xs ys arbitrary: m rule: longest_common_prefix.induct)
  case (1 x xs y ys)
  show ?case
  proof (cases m)
    case 0
    then show ?thesis using "1.prems"(4) by (simp add: lcp_def)
  next
    case (Suc n)
    then have "x = y" "lcp xs ys = n" using "1.prems" "1.IH" [of n] by auto
    with Suc show ?thesis by (simp add: lcp_def)
  qed
qed (auto simp: lcp_def)

lemma countLoop_range: "m \<le> countLoop b index key depth todo m \<and> countLoop b index key depth todo m \<le> m + todo"
proof (induction todo arbitrary: m)
  case (Suc todo)
  from Suc.IH [of "m + 1"] show ?case by auto
qed simp

lemma countLoop_equal:
  "m \<le> i \<Longrightarrow> i < countLoop b index key depth todo m \<Longrightarrow>
     bits_get b (index + i) = urkelBit key (depth + i)"
proof (induction todo arbitrary: m)
  case (Suc todo)
  show ?case
  proof (cases "i = m")
    case False
    then show ?thesis using Suc.prems Suc.IH [of "m + 1"] by (simp split: if_split_asm)
  qed (use Suc.prems in \<open>simp split: if_split_asm\<close>)
qed simp

lemma countLoop_differ:
  "countLoop b index key depth todo m < m + todo \<Longrightarrow>
     bits_get b (index + countLoop b index key depth todo m) \<noteq>
     urkelBit key (depth + countLoop b index key depth todo m)"
proof (induction todo arbitrary: m)
  case (Suc todo)
  then show ?case by (simp split: if_split_asm)
qed simp

lemma countLoop_lcp:
  assumes "todo = min (8 * length key - depth) (ub_size b - index)"
  shows "countLoop b index key depth todo 0 = lcp (drop index (ubits b)) (drop depth (kbits key))"
proof -
  define r where "r = countLoop b index key depth todo 0"
  have r: "r \<le> ub_size b - index" "r \<le> 8 * length key - depth"
    using countLoop_range [of 0 b index key depth todo] assms by (auto simp: r_def)
  have eq: "bits_get b (index + i) = urkelBit key (depth + i)" if "i < r" for i
    using countLoop_equal [of 0 i b index key depth todo] that by (simp add: r_def)
  have "lcp (drop index (ubits b)) (drop depth (kbits key)) = r"
  proof (rule lcp_eqI)
    show "r \<le> length (drop index (ubits b))" "r \<le> length (drop depth (kbits key))" using r by simp_all
    show "take r (drop index (ubits b)) = take r (drop depth (kbits key))"
      using r eq by (auto intro!: nth_equalityI)
    assume "r < length (drop index (ubits b))" "r < length (drop depth (kbits key))"
    then have "index + r < ub_size b" "depth + r < 8 * length key" "r < todo"
      using assms by (simp_all add: less_diff_conv add.commute)
    with countLoop_differ [of b index key depth todo 0]
    show "drop index (ubits b) ! r \<noteq> drop depth (kbits key) ! r" by (simp add: r_def)
  qed
  then show ?thesis by (simp add: r_def)
qed

lemma bits_count_lcp: "bits_count b key depth = lcp (ubits b) (drop depth (kbits key))"
  using countLoop_lcp [of _ key depth b 0] by (simp add: bits_count_def mult.commute)

lemma bits_countFrom_lcp:
  "bits_countFrom b index key depth = lcp (drop index (ubits b)) (drop depth (kbits key))"
  by (simp add: bits_countFrom_def countLoop_lcp mult.commute)

lemma bits_has_iff: "bits_has b key depth \<longleftrightarrow> prefix (ubits b) (drop depth (kbits key))"
  by (simp add: bits_has_def bits_count_lcp flip: lcp_full)

subsection \<open>Slices\<close>

lemma length_zeroHash [simp]: "length zeroHash = HashSize"
  by (simp add: zeroHash_def)

lemma urkelBit_zeroHash [simp]: "\<not> urkelBit zeroHash i"
  by (simp add: urkelBit_def zeroHash_def)

lemma setBits_fold:
  assumes "n \<le> 8 * length d"
  shows "length (fold (\<lambda>i d. if P i then urkelSetBit d i else d) [0..<n] d) = length d"
    and "urkelBit (fold (\<lambda>i d. if P i then urkelSetBit d i else d) [0..<n] d) j \<longleftrightarrow>
           j < n \<and> P j \<or> urkelBit d j"
proof -
  have "length (fold (\<lambda>i d. if P i then urkelSetBit d i else d) [0..<n] d) = length d \<and>
    (urkelBit (fold (\<lambda>i d. if P i then urkelSetBit d i else d) [0..<n] d) j \<longleftrightarrow>
           j < n \<and> P j \<or> urkelBit d j)"
    using assms by (induction n) (auto simp: urkelBit_urkelSetBit less_Suc_eq)
  then show "length (fold (\<lambda>i d. if P i then urkelSetBit d i else d) [0..<n] d) = length d"
    and "urkelBit (fold (\<lambda>i d. if P i then urkelSetBit d i else d) [0..<n] d) j \<longleftrightarrow>
           j < n \<and> P j \<or> urkelBit d j" by auto
qed

lemma ub_size_bits_slice [simp]: "ub_size (bits_slice b s e) = e - s"
  by (simp add: bits_slice_def Let_def emptyUrkelBits_def)

lemma bits_get_bits_slice:
  "e - s \<le> urkelKeyBits \<Longrightarrow> bits_get (bits_slice b s e) i \<longleftrightarrow> i < e - s \<and> bits_get b (s + i)"
  by (simp add: bits_slice_def Let_def emptyUrkelBits_def
      bits_get_def [of "\<lparr>ub_size = _, ub_data = _\<rparr>"] setBits_fold(2) urkelKeyBits_def)

lemma bits_canon_bits_slice: "e - s \<le> urkelKeyBits \<Longrightarrow> bits_canon (bits_slice b s e)"
  by (simp add: bits_canon_def bits_get_bits_slice bits_ok_def)
    (simp add: bits_slice_def Let_def emptyUrkelBits_def setBits_fold(1) urkelKeyBits_def)

lemma ubits_bits_slice:
  assumes "e \<le> ub_size b" "ub_size b \<le> urkelKeyBits"
  shows "ubits (bits_slice b s e) = take (e - s) (drop s (ubits b))"
  using assms by (intro nth_equalityI) (auto simp: bits_get_bits_slice)

lemma bits_split_ubits:
  assumes "bits_ok b" "index < ub_size b" "bits_split b index = (front, back)"
  shows "bits_canon front" "bits_canon back"
    and "ubits front = take index (ubits b)" "ubits back = drop (index + 1) (ubits b)"
proof -
  have e: "front = bits_slice b 0 index" "back = bits_slice b (index + 1) (ub_size b)"
    using assms(3) by (auto simp: bits_split_def)
  have b: "ub_size b \<le> urkelKeyBits" using assms(1) by (simp add: bits_ok_def)
  show "bits_canon front" "bits_canon back"
    using assms(2) b unfolding e by (auto intro!: bits_canon_bits_slice)
  show "ubits front = take index (ubits b)"
    using assms(2) b by (simp add: e ubits_bits_slice)
  show "ubits back = drop (index + 1) (ubits b)"
    using b by (simp add: e ubits_bits_slice)
qed

lemma bits_collide_ubits:
  assumes "length k = HashSize" "length key = HashSize" "depth \<le> urkelKeyBits"
  defines "n \<equiv> lcp (drop depth (kbits k)) (drop depth (kbits key))"
  shows "bits_canon (bits_collide (urkelBitsFromKey k) key depth)"
    and "ubits (bits_collide (urkelBitsFromKey k) key depth) = take n (drop depth (kbits k))"
proof -
  have c: "bits_collide (urkelBitsFromKey k) key depth = bits_slice (urkelBitsFromKey k) depth (depth + n)"
    using assms(1) by (simp add: bits_collide_def bits_countFrom_lcp n_def)
  have "n \<le> length (drop depth (kbits k))" unfolding n_def by (rule lcp_le(1))
  then have n: "depth + n \<le> urkelKeyBits" using assms(1,3) by (simp add: urkelKeyBits_def)
  show "bits_canon (bits_collide (urkelBitsFromKey k) key depth)"
    using n unfolding c by (intro bits_canon_bits_slice) simp
  show "ubits (bits_collide (urkelBitsFromKey k) key depth) = take n (drop depth (kbits k))"
    using n assms(1) by (simp add: c ubits_bits_slice)
qed

end
