(* ===== verification/Urkel_Tree.thy ===== *)
theory Urkel_Tree
  imports Urkel_Bits "HOL-Library.List_Lexorder"
begin

text \<open>
  The immutable name tree of src/blockchain/urkel.go: a compressed binary trie over 32-byte keys
  whose internal nodes carry a bit prefix and whose nodes carry their hash. A nil root is \<open>None\<close>;
  an internal node has two non-nil children because it is only built from the hashes of both. The
  tree is related to the map of its leaves: insertion never panics on a well-formed tree, updates
  the map at one key, and a well-formed tree is determined by its map, so the root does not depend
  on the order of insertion. Conversely the root hash determines the map as long as the hash
  function has no collision among the preimages of the two trees.
\<close>

section \<open>Node hashes\<close>

definition leafPreimage :: "hash \<Rightarrow> hash \<Rightarrow> bytes" where
  "leafPreimage key valueHash = [0] @ key @ valueHash"

definition internalPreimage :: "urkelBits \<Rightarrow> hash \<Rightarrow> hash \<Rightarrow> bytes" where
  "internalPreimage pre left right =
     (if ub_size pre = 0 then [1] @ left @ right
      else [2] @ PutUint16 (of_nat (ub_size pre))
             @ take (bits_byteSize pre) (ub_data pre) @ left @ right)"

definition hashUrkelLeaf :: "hashers \<Rightarrow> hash \<Rightarrow> hash \<Rightarrow> hash" where
  "hashUrkelLeaf H key valueHash = blake2b256 H (leafPreimage key valueHash)"

definition hashUrkelValue :: "hashers \<Rightarrow> hash \<Rightarrow> bytes \<Rightarrow> hash" where
  "hashUrkelValue H key value = hashUrkelLeaf H key (blake2b256 H value)"

definition hashUrkelInternal :: "hashers \<Rightarrow> urkelBits \<Rightarrow> hash \<Rightarrow> hash \<Rightarrow> hash" where
  "hashUrkelInternal H pre left right = blake2b256 H (internalPreimage pre left right)"

section \<open>Nodes\<close>

datatype urkelNode =
  LeafNode hash bytes hash
| InternalNode urkelBits urkelNode urkelNode hash

fun node_hash :: "urkelNode \<Rightarrow> hash" where
  "node_hash (LeafNode key value hashValue) = hashValue"
| "node_hash (InternalNode pre left right hashValue) = hashValue"

definition newUrkelLeaf :: "hashers \<Rightarrow> hash \<Rightarrow> bytes \<Rightarrow> urkelNode" where
  "newUrkelLeaf H key value = LeafNode key value (hashUrkelValue H key value)"

definition newUrkelInternalDirect :: "hashers \<Rightarrow> urkelBits \<Rightarrow> urkelNode \<Rightarrow> urkelNode \<Rightarrow> urkelNode" where
  "newUrkelInternalDirect H pre left right =
     InternalNode pre left right (hashUrkelInternal H pre (node_hash left) (node_hash right))"

definition newUrkelInternal :: "hashers \<Rightarrow> urkelBits \<Rightarrow> urkelNode \<Rightarrow> urkelNode \<Rightarrow> bool \<Rightarrow> urkelNode" where
  "newUrkelInternal H pre x y b =
     (if \<not> b then newUrkelInternalDirect H pre x y else newUrkelInternalDirect H pre y x)"

primrec insertNode :: "hashers \<Rightarrow> urkelNode \<Rightarrow> hash \<Rightarrow> bytes \<Rightarrow> nat \<Rightarrow> urkelNode result" where
  "insertNode H (InternalNode pre left right hashValue) key value depth =
     (let bits = bits_count pre key depth; nextDepth = depth + bits in
      rbind (urkelHasBit key nextDepth) (\<lambda>b.
      if bits \<noteq> ub_size pre then
        (let leaf = newUrkelLeaf H key value; (front, back) = bits_split pre bits;
             child = newUrkelInternalDirect H back left right
         in Inr (newUrkelInternal H front leaf child b))
      else if \<not> b then
        rbind (insertNode H left key value (nextDepth + 1)) (\<lambda>left'.
          Inr (newUrkelInternalDirect H pre left' right))
      else
        rbind (insertNode H right key value (nextDepth + 1)) (\<lambda>right'.
          Inr (newUrkelInternalDirect H pre left right'))))"
| "insertNode H (LeafNode k v hashValue) key value depth =
     (if k = key then Inr (newUrkelLeaf H key value)
      else let pre = bits_collide (urkelBitsFromKey k) key depth;
               nextDepth = depth + ub_size pre; leaf = newUrkelLeaf H key value
           in rbind (urkelHasBit key nextDepth) (\<lambda>b.
                Inr (newUrkelInternal H pre leaf (LeafNode k v hashValue) b)))"

definition insertUrkel :: "hashers \<Rightarrow> urkelNode option \<Rightarrow> hash \<Rightarrow> bytes \<Rightarrow> nat \<Rightarrow> urkelNode result" where
  "insertUrkel H node key value depth =
     (case node of None \<Rightarrow> Inr (newUrkelLeaf H key value)
      | Some n \<Rightarrow> insertNode H n key value depth)"

fun insertAll :: "hashers \<Rightarrow> urkelNode option \<Rightarrow> (hash \<times> bytes) list \<Rightarrow> urkelNode option result" where
  "insertAll H root [] = Inr root"
| "insertAll H root ((key, value) # leaves) =
     rbind (insertUrkel H root key value 0) (\<lambda>n. insertAll H (Some n) leaves)"

definition buildUrkelTree :: "hashers \<Rightarrow> (hash \<times> bytes) list \<Rightarrow> urkelNode option result" where
  "buildUrkelTree H leaves =
     (if leaves = [] then Inr None else insertAll H None (sort_key fst leaves))"

definition root_hash :: "urkelNode option \<Rightarrow> hash" where
  "root_hash root = (case root of None \<Rightarrow> zeroHash | Some n \<Rightarrow> node_hash n)"

definition calcUrkelRoot :: "hashers \<Rightarrow> (hash \<times> bytes) list \<Rightarrow> hash result" where
  "calcUrkelRoot H leaves = rbind (buildUrkelTree H leaves) (\<lambda>root. Inr (root_hash root))"

section \<open>Well-formed trees and their contents\<close>

fun tree_at :: "hashers \<Rightarrow> bool list \<Rightarrow> urkelNode \<Rightarrow> bool" where
  "tree_at H p (LeafNode k v h) \<longleftrightarrow>
     length k = HashSize \<and> prefix p (kbits k) \<and> h = hashUrkelValue H k v"
| "tree_at H p (InternalNode q l r h) \<longleftrightarrow>
     bits_canon q \<and> tree_at H (p @ ubits q @ [False]) l \<and> tree_at H (p @ ubits q @ [True]) r \<and>
     h = hashUrkelInternal H q (node_hash l) (node_hash r)"

fun umap :: "urkelNode \<Rightarrow> hash \<rightharpoonup> bytes" where
  "umap (LeafNode k v h) = [k \<mapsto> v]"
| "umap (InternalNode q l r h) = umap l ++ umap r"

definition root_ok :: "hashers \<Rightarrow> urkelNode option \<Rightarrow> bool" where
  "root_ok H root = (case root of None \<Rightarrow> True | Some n \<Rightarrow> tree_at H [] n)"

definition contents :: "urkelNode option \<Rightarrow> hash \<rightharpoonup> bytes" where
  "contents root = (case root of None \<Rightarrow> Map.empty | Some n \<Rightarrow> umap n)"

lemma contents_simps [simp]: "contents None = Map.empty" "contents (Some n) = umap n"
  by (simp_all add: contents_def)

lemma root_ok_simps [simp]: "root_ok H None" "root_ok H (Some n) = tree_at H [] n"
  by (simp_all add: root_ok_def)

lemma tree_at_keys: "tree_at H p t \<Longrightarrow> k \<in> dom (umap t) \<Longrightarrow> length k = HashSize \<and> prefix p (kbits k)"
  by (induction t arbitrary: p) (auto split: if_splits dest: append_prefixD)

lemma umap_nonempty: "\<exists>k v. umap t k = Some v"
proof (induction t)
  case (InternalNode q l r h)
  then show ?case by (auto simp: map_add_Some_iff)
qed auto

lemma tree_at_inhabited:
  assumes "tree_at H p t"
  obtains k v where "umap t k = Some v" "length k = HashSize" "prefix p (kbits k)"
  using umap_nonempty [of t] tree_at_keys [OF assms] by blast

lemma tree_at_depth:
  assumes "tree_at H p t"
  shows "length p \<le> urkelKeyBits"
  using assms prefix_length_le
  by (elim tree_at_inhabited) (fastforce simp: urkelKeyBits_def)

lemma tree_at_child_depth:
  assumes "tree_at H p (InternalNode q l r h)"
  shows "length p + ub_size q < urkelKeyBits"
  using tree_at_depth [of H "p @ ubits q @ [False]" l] assms by simp

lemma prefix_bit:
  "prefix (p @ [b]) xs \<longleftrightarrow> prefix p xs \<and> length p < length xs \<and> xs ! length p = b"
proof (cases "prefix p xs")
  case True
  then obtain ys where "xs = p @ ys" by (auto simp: prefix_def)
  then show ?thesis by (cases ys) auto
qed (auto dest: append_prefixD)

lemma umap_internal_side:
  assumes "tree_at H p (InternalNode q l r h)"
  shows "umap l = umap (InternalNode q l r h) |` {k. \<not> kbits k ! (length p + ub_size q)}"
    and "umap r = umap (InternalNode q l r h) |` {k. kbits k ! (length p + ub_size q)}"
proof -
  let ?i = "length p + ub_size q"
  have l: "\<not> kbits k ! ?i" if "k \<in> dom (umap l)" for k
    using tree_at_keys [of H "p @ ubits q @ [False]" l k] assms that
      prefix_bit [of "p @ ubits q" False "kbits k"] by simp
  have r: "kbits k ! ?i" if "k \<in> dom (umap r)" for k
    using tree_at_keys [of H "p @ ubits q @ [True]" r k] assms that
      prefix_bit [of "p @ ubits q" True "kbits k"] by simp
  show "umap l = umap (InternalNode q l r h) |` {k. \<not> kbits k ! ?i}"
  proof
    fix k show "umap l k = (umap (InternalNode q l r h) |` {k. \<not> kbits k ! ?i}) k"
      using l [of k] r [of k] by (cases "umap l k"; cases "umap r k") (auto simp: restrict_map_def map_add_def)
  qed
  show "umap r = umap (InternalNode q l r h) |` {k. kbits k ! ?i}"
  proof
    fix k show "umap r k = (umap (InternalNode q l r h) |` {k. kbits k ! ?i}) k"
      using l [of k] r [of k] by (cases "umap l k"; cases "umap r k") (auto simp: restrict_map_def map_add_def)
  qed
qed

section \<open>Insertion\<close>

lemma node_hash_new [simp]:
  "node_hash (newUrkelLeaf H key value) = hashUrkelValue H key value"
  by (simp add: newUrkelLeaf_def)

lemma tree_at_newUrkelLeaf [simp]:
  "tree_at H p (newUrkelLeaf H key value) \<longleftrightarrow> length key = HashSize \<and> prefix p (kbits key)"
  by (simp add: newUrkelLeaf_def)

lemma umap_newUrkelLeaf [simp]: "umap (newUrkelLeaf H key value) = [key \<mapsto> value]"
  by (simp add: newUrkelLeaf_def)

lemma tree_at_newUrkelInternalDirect [simp]:
  "tree_at H p (newUrkelInternalDirect H q l r) \<longleftrightarrow>
     bits_canon q \<and> tree_at H (p @ ubits q @ [False]) l \<and> tree_at H (p @ ubits q @ [True]) r"
  by (simp add: newUrkelInternalDirect_def)

lemma umap_newUrkelInternalDirect [simp]: "umap (newUrkelInternalDirect H q l r) = umap l ++ umap r"
  by (simp add: newUrkelInternalDirect_def)

lemma tree_at_newUrkelInternal:
  "bits_canon q \<Longrightarrow> tree_at H (p @ ubits q @ [b]) x \<Longrightarrow> tree_at H (p @ ubits q @ [\<not> b]) y \<Longrightarrow>
     tree_at H p (newUrkelInternal H q x y b)"
  by (cases b) (simp_all add: newUrkelInternal_def)

lemma umap_newUrkelInternal:
  "dom (umap x) \<inter> dom (umap y) = {} \<Longrightarrow> umap (newUrkelInternal H q x y b) = umap x ++ umap y"
  by (simp add: newUrkelInternal_def map_add_comm Int_commute)

lemma umap_branch:
  assumes "tree_at H (p @ [\<not> kbits key ! length p]) t"
  shows "umap (newUrkelInternal H q (newUrkelLeaf H key value) t b) = (umap t)(key \<mapsto> value)"
proof -
  have "key \<notin> dom (umap t)"
    using tree_at_keys [OF assms, of key] by (auto simp: prefix_bit)
  then show ?thesis by (subst umap_newUrkelInternal) (auto simp: map_add_comm)
qed

lemma drop_prefix: "prefix p xs \<Longrightarrow> prefix (p @ q) xs \<longleftrightarrow> prefix q (drop (length p) xs)"
  by (auto simp: prefix_def)

text \<open>Splitting a position: the new key shares \<open>n\<close> further bits with the position and then differs.\<close>

lemma key_leaves_path:
  assumes "prefix p (kbits key)" "length key = HashSize"
    and "n = lcp qs (drop (length p) (kbits key))" "n < length qs" "length p + length qs \<le> urkelKeyBits"
  shows "length p + n < 8 * length key"
    and "prefix (p @ take n qs @ [kbits key ! (length p + n)]) (kbits key)"
    and "qs = take n qs @ [\<not> kbits key ! (length p + n)] @ drop (n + 1) qs"
proof -
  let ?ks = "drop (length p) (kbits key)"
  have lk: "length (kbits key) = urkelKeyBits" using assms(2) by (simp add: urkelKeyBits_def)
  show l: "length p + n < 8 * length key" using assms(2,4,5) by (simp add: urkelKeyBits_def)
  then have n: "n < length ?ks" by (simp add: less_diff_conv)
  have "take n qs = take n ?ks" using lcp_take assms(3) by metis
  then have "prefix (p @ take n qs) (kbits key)"
    using assms(1) by (simp add: drop_prefix take_is_prefix)
  then show "prefix (p @ take n qs @ [kbits key ! (length p + n)]) (kbits key)"
    using prefix_bit [of "p @ take n qs" "kbits key ! (length p + n)" "kbits key"] assms(4) l by simp
  have "qs ! n \<noteq> ?ks ! n" using lcp_differ [of qs ?ks] assms(3,4) n by simp
  then have "qs ! n = (\<not> kbits key ! (length p + n))" using l by simp
  then show "qs = take n qs @ [\<not> kbits key ! (length p + n)] @ drop (n + 1) qs"
    using id_take_nth_drop [OF assms(4)] by simp
qed

lemma leaf_split:
  assumes t: "tree_at H p (LeafNode k v h)" and ne: "k \<noteq> key"
    and key: "length key = HashSize" "prefix p (kbits key)"
  defines "c \<equiv> bits_collide (urkelBitsFromKey k) key (length p)"
  defines "b \<equiv> kbits key ! (length p + ub_size c)"
  shows "bits_canon c" "length p + ub_size c < 8 * length key" "prefix (p @ ubits c @ [b]) (kbits key)"
    and "tree_at H (p @ ubits c @ [\<not> b]) (LeafNode k v h)"
proof -
  let ?qs = "drop (length p) (kbits k)" and ?n = "lcp (drop (length p) (kbits k)) (drop (length p) (kbits key))"
  have k: "length k = HashSize" "prefix p (kbits k)" using t by simp_all
  have d: "length p \<le> urkelKeyBits" by (rule tree_at_depth [OF t])
  note c = bits_collide_ubits [OF k(1) key(1) d, folded c_def]
  show "bits_canon c" by (rule c(1))
  have n: "?n < length ?qs"
  proof (rule ccontr)
    assume "\<not> ?n < length ?qs"
    then have "?n = length ?qs" by (intro antisym lcp_le(1)) simp
    then have "prefix (p @ ?qs) (kbits key)" using key(2) unfolding lcp_full by (simp add: drop_prefix)
    moreover have "p @ ?qs = kbits k" using k(2) by (auto simp: prefix_def)
    ultimately have "prefix (kbits k) (kbits key)" by simp
    then have "kbits k = kbits key" using k(1) key(1) not_equal_is_parallel parallelD1 by fastforce
    with ne k(1) key(1) show False by (simp add: kbits_inject)
  qed
  have s: "ub_size c = ?n" using arg_cong [OF c(2), of length] n by simp
  have "length p + length ?qs \<le> urkelKeyBits" using d k(1) by (simp add: urkelKeyBits_def)
  note path = key_leaves_path [OF key(2,1) refl n this]
  show "length p + ub_size c < 8 * length key" using path(1) s by simp
  show "prefix (p @ ubits c @ [b]) (kbits key)" using path(2) by (simp add: b_def c(2) s)
  have "kbits k = (p @ ubits c @ [\<not> b]) @ drop (?n + 1) ?qs"
    using path(3) k(2) by (auto simp: prefix_def b_def c(2) s)
  then have "prefix (p @ ubits c @ [\<not> b]) (kbits k)" by (metis prefixI)
  then show "tree_at H (p @ ubits c @ [\<not> b]) (LeafNode k v h)" using t by simp
qed

lemma insertNode_leaf:
  assumes t: "tree_at H p (LeafNode k v h)" and ne: "k \<noteq> key"
    and key: "length key = HashSize" "prefix p (kbits key)"
  shows "\<exists>t'. insertNode H (LeafNode k v h) key value (length p) = Inr t' \<and> tree_at H p t' \<and>
    umap t' = (umap (LeafNode k v h))(key \<mapsto> value)"
proof -
  let ?c = "bits_collide (urkelBitsFromKey k) key (length p)"
  let ?b = "kbits key ! (length p + ub_size ?c)"
  note sp = leaf_split [OF assms]
  show ?thesis
  proof (intro exI conjI)
    show "insertNode H (LeafNode k v h) key value (length p) =
        Inr (newUrkelInternal H ?c (newUrkelLeaf H key value) (LeafNode k v h) ?b)"
      using sp(2) ne by (simp add: urkelHasBit_ok Let_def)
    show "tree_at H p (newUrkelInternal H ?c (newUrkelLeaf H key value) (LeafNode k v h) ?b)"
      using sp(3) key by (intro tree_at_newUrkelInternal [OF sp(1) _ sp(4)]) simp
    show "umap (newUrkelInternal H ?c (newUrkelLeaf H key value) (LeafNode k v h) ?b) =
        (umap (LeafNode k v h))(key \<mapsto> value)"
      by (rule umap_branch [where p = "p @ ubits ?c"]) (use sp(4) in simp)
  qed
qed

lemma internal_split:
  assumes t: "tree_at H p (InternalNode q l r h)"
    and key: "length key = HashSize" "prefix p (kbits key)"
    and n: "bits_count q key (length p) \<noteq> ub_size q"
    and fb: "bits_split q (bits_count q key (length p)) = (front, rear)"
  defines "b \<equiv> kbits key ! (length p + bits_count q key (length p))"
  shows "bits_canon front" "bits_canon rear" "length p + bits_count q key (length p) < 8 * length key"
    and "ub_size front = bits_count q key (length p)" "prefix (p @ ubits front @ [b]) (kbits key)"
    and "(p @ ubits front @ [\<not> b]) @ ubits rear @ xs = p @ ubits q @ xs"
proof -
  let ?n = "bits_count q key (length p)"
  have q: "bits_ok q" using t by (simp add: bits_canonD)
  have n': "?n < length (ubits q)"
    using n lcp_le(1) [of "ubits q"] by (simp add: bits_count_lcp le_neq_implies_less)
  note f = bits_split_ubits [OF q n' [unfolded length_ubits] fb]
  show "bits_canon front" "bits_canon rear" by (rule f(1), rule f(2))
  have d: "length p + length (ubits q) \<le> urkelKeyBits" using tree_at_child_depth [OF t] by simp
  note path = key_leaves_path [OF key(2,1) bits_count_lcp n' d]
  show "length p + ?n < 8 * length key" by (rule path(1))
  show "ub_size front = ?n" using arg_cong [OF f(3), of length] n' by simp
  show "prefix (p @ ubits front @ [b]) (kbits key)" using path(2) by (simp add: b_def f(3))
  show "(p @ ubits front @ [\<not> b]) @ ubits rear @ xs = p @ ubits q @ xs"
    using arg_cong [OF path(3), of "\<lambda>qs. p @ qs @ xs"] f by (simp add: b_def)
qed

lemma insertNode_split:
  assumes t: "tree_at H p (InternalNode q l r h)"
    and key: "length key = HashSize" "prefix p (kbits key)"
    and n: "bits_count q key (length p) \<noteq> ub_size q"
  shows "\<exists>t'. insertNode H (InternalNode q l r h) key value (length p) = Inr t' \<and> tree_at H p t' \<and>
    umap t' = (umap (InternalNode q l r h))(key \<mapsto> value)"
proof -
  let ?n = "bits_count q key (length p)" and ?b = "kbits key ! (length p + bits_count q key (length p))"
  obtain front rear where fb: "bits_split q ?n = (front, rear)" by fastforce
  note sp = internal_split [OF t key n fb]
  let ?child = "newUrkelInternalDirect H rear l r"
  have child: "tree_at H (p @ ubits front @ [\<not> ?b]) ?child"
    using t sp(2) by (simp only: tree_at_newUrkelInternalDirect tree_at.simps sp(6) simp_thms)
  show ?thesis
  proof (intro exI conjI)
    show "insertNode H (InternalNode q l r h) key value (length p) =
        Inr (newUrkelInternal H front (newUrkelLeaf H key value) ?child ?b)"
      using sp(3) n by (simp add: urkelHasBit_ok fb Let_def)
    show "tree_at H p (newUrkelInternal H front (newUrkelLeaf H key value) ?child ?b)"
      using sp(5) key by (intro tree_at_newUrkelInternal [OF sp(1) _ child]) simp
    have "umap (newUrkelInternal H front (newUrkelLeaf H key value) ?child ?b) = (umap ?child)(key \<mapsto> value)"
      using child sp(4) by (intro umap_branch [where p = "p @ ubits front"]) (simp del: tree_at_newUrkelInternalDirect)
    then show "umap (newUrkelInternal H front (newUrkelLeaf H key value) ?child ?b) =
        (umap (InternalNode q l r h))(key \<mapsto> value)"
      by (simp only: umap_newUrkelInternalDirect umap.simps)
  qed
qed

lemma insertNode_ok:
  assumes "tree_at H p t" "length key = HashSize" "prefix p (kbits key)"
  shows "\<exists>t'. insertNode H t key value (length p) = Inr t' \<and> tree_at H p t' \<and>
    umap t' = (umap t)(key \<mapsto> value)"
  using assms
proof (induction t arbitrary: p)
  case (LeafNode k v h)
  show ?case
  proof (cases "k = key")
    case True
    with LeafNode show ?thesis by (simp add: fun_eq_iff)
  next
    case False
    with LeafNode show ?thesis by (intro insertNode_leaf)
  qed
next
  case (InternalNode q l r h)
  let ?n = "bits_count q key (length p)" and ?b = "kbits key ! (length p + bits_count q key (length p))"
  show ?case
  proof (cases "?n = ub_size q")
    case False
    with InternalNode.prems show ?thesis by (intro insertNode_split)
  next
    case True
    have d: "length p + ub_size q < 8 * length key"
      using tree_at_child_depth [OF InternalNode.prems(1)] InternalNode.prems(2) by (simp add: urkelKeyBits_def)
    have "prefix (p @ ubits q) (kbits key)"
      using True InternalNode.prems(3) bits_has_iff [of q key "length p"] by (simp add: bits_has_def drop_prefix)
    then have pk: "prefix (p @ ubits q @ [?b]) (kbits key)"
      using prefix_bit [of "p @ ubits q" ?b "kbits key"] True d by simp
    have lp: "length (p @ ubits q @ [?b]) = length p + ub_size q + 1" for x by simp
    have u: "(umap l ++ umap r)(key \<mapsto> value) = (umap l)(key \<mapsto> value) ++ umap r" if "\<not> ?b"
    proof -
      have "key \<notin> dom (umap r)"
        using tree_at_keys [of H "p @ ubits q @ [True]" r key] InternalNode.prems(1) that True
          prefix_bit [of "p @ ubits q" True "kbits key"] by auto
      then show ?thesis by (simp add: map_add_upd_left)
    qed
    show ?thesis
    proof (cases ?b)
      case b: False
      obtain l' where l: "insertNode H l key value (length p + ub_size q + 1) = Inr l'"
        "tree_at H (p @ ubits q @ [False]) l'" "umap l' = (umap l)(key \<mapsto> value)"
        using InternalNode.IH(1) [of "p @ ubits q @ [False]"] InternalNode.prems pk b
        by (auto simp only: tree_at.simps length_append length_ubits list.size add_0 add.assoc One_nat_def)
      show ?thesis
      proof (intro exI conjI)
        show "insertNode H (InternalNode q l r h) key value (length p) = Inr (newUrkelInternalDirect H q l' r)"
          using l(1) d True b by (simp add: urkelHasBit_ok)
        show "tree_at H p (newUrkelInternalDirect H q l' r)" using l(2) InternalNode.prems(1) by simp
        show "umap (newUrkelInternalDirect H q l' r) = (umap (InternalNode q l r h))(key \<mapsto> value)"
          by (simp only: umap_newUrkelInternalDirect umap.simps l(3) u [OF b])
      qed
    next
      case b: True
      obtain r' where r: "insertNode H r key value (length p + ub_size q + 1) = Inr r'"
        "tree_at H (p @ ubits q @ [True]) r'" "umap r' = (umap r)(key \<mapsto> value)"
        using InternalNode.IH(2) [of "p @ ubits q @ [True]"] InternalNode.prems pk b
        by (auto simp only: tree_at.simps length_append length_ubits list.size add_0 add.assoc One_nat_def)
      show ?thesis
      proof (intro exI conjI)
        show "insertNode H (InternalNode q l r h) key value (length p) = Inr (newUrkelInternalDirect H q l r')"
          using r(1) d True b by (simp add: urkelHasBit_ok)
        show "tree_at H p (newUrkelInternalDirect H q l r')" using r(2) InternalNode.prems(1) by simp
        show "umap (newUrkelInternalDirect H q l r') = (umap (InternalNode q l r h))(key \<mapsto> value)"
          by (simp only: umap_newUrkelInternalDirect umap.simps r(3) map_add_upd)
      qed
    qed
  qed
qed

lemma insertUrkel_ok:
  assumes "root_ok H root" "length key = HashSize"
  shows "\<exists>n. insertUrkel H root key value 0 = Inr n \<and> tree_at H [] n \<and>
    umap n = (contents root)(key \<mapsto> value)"
proof (cases root)
  case None
  with assms show ?thesis by (simp add: insertUrkel_def)
next
  case (Some t)
  with assms insertNode_ok [of H "[]" t key "value"] show ?thesis
    by (simp only: insertUrkel_def root_ok_simps contents_simps option.case list.size prefix_bot.bot_least)
qed

lemma insertAll_ok:
  assumes "root_ok H root" "\<And>k v. (k, v) \<in> set leaves \<Longrightarrow> length k = HashSize"
  shows "\<exists>root'. insertAll H root leaves = Inr root' \<and> root_ok H root' \<and>
    contents root' = contents root ++ map_of (rev leaves)"
  using assms
proof (induction leaves arbitrary: root)
  case (Cons kv leaves)
  obtain k v where kv: "kv = (k, v)" by fastforce
  obtain n where n: "insertUrkel H root k v 0 = Inr n" "tree_at H [] n" "umap n = (contents root)(k \<mapsto> v)"
    using insertUrkel_ok [of H root k v] Cons.prems kv by auto
  then obtain root' where "insertAll H (Some n) leaves = Inr root'" "root_ok H root'"
    "contents root' = umap n ++ map_of (rev leaves)"
    using Cons.IH [of "Some n"] Cons.prems(2) by (metis contents_simps(2) list.set_intros(2) root_ok_simps(2))
  with n(1) kv show ?case by (simp add: n(3) map_add_assoc [symmetric])
qed simp

lemma map_of_reorder:
  assumes "distinct (map fst xs)" "distinct (map fst ys)" "set xs = set ys"
  shows "map_of xs = map_of ys"
  using assms map_of_eq_Some_iff by (metis (no_types, opaque_lifting) option.exhaust_sel ext)

section \<open>A tree is determined by its contents\<close>

lemma internal_two_keys:
  assumes "tree_at H p (InternalNode q l r h)"
  obtains k k' where "k \<in> dom (umap (InternalNode q l r h))" "k' \<in> dom (umap (InternalNode q l r h))"
    "prefix (p @ ubits q @ [False]) (kbits k)" "prefix (p @ ubits q @ [True]) (kbits k')"
proof -
  have l: "tree_at H (p @ ubits q @ [False]) l" and r: "tree_at H (p @ ubits q @ [True]) r"
    using assms by simp_all
  obtain k v k' v' where "umap l k = Some v" "prefix (p @ ubits q @ [False]) (kbits k)"
    "umap r k' = Some v'" "prefix (p @ ubits q @ [True]) (kbits k')"
    using tree_at_inhabited [OF l] tree_at_inhabited [OF r] by metis
  then show thesis by (intro that [of k k']) auto
qed

lemma internal_keys:
  assumes "tree_at H p (InternalNode q l r h)" "k \<in> dom (umap (InternalNode q l r h))"
  shows "prefix (p @ ubits q) (kbits k)"
  using assms tree_at_keys [of H "p @ ubits q @ [False]" l k] tree_at_keys [of H "p @ ubits q @ [True]" r k]
    append_prefixD [of "p @ ubits q" _ "kbits k"] by auto

lemma prefix_shorter:
  assumes "prefix (a @ [False]) x" "prefix (a @ [True]) y" "prefix b x" "prefix b y"
  shows "prefix b a"
proof (rule ccontr)
  assume "\<not> prefix b a"
  moreover have "prefix a x" using assms(1) by (rule append_prefixD)
  ultimately have "length a < length b"
    using assms(3) prefix_length_prefix [of b x a] by (meson not_le)
  then have "prefix (a @ [False]) b" "prefix (a @ [True]) b"
    using assms by (auto intro: prefix_length_prefix)
  then show False by (auto simp: prefix_bit)
qed

lemma internal_prefix_unique:
  assumes "tree_at H p (InternalNode q l r h)" "tree_at H p (InternalNode q' l' r' h')"
    and "dom (umap (InternalNode q l r h)) = dom (umap (InternalNode q' l' r' h'))"
  shows "q = q'"
proof -
  have "prefix (ubits q') (ubits q)"
    using internal_two_keys [OF assms(1)] internal_keys [OF assms(2)] assms(3)
      prefix_shorter [of "p @ ubits q" _ _ "p @ ubits q'"]
    by (metis append_assoc same_prefix_prefix)
  moreover have "prefix (ubits q) (ubits q')"
    using internal_two_keys [OF assms(2)] internal_keys [OF assms(1)] assms(3)
      prefix_shorter [of "p @ ubits q'" _ _ "p @ ubits q"]
    by (metis append_assoc same_prefix_prefix)
  ultimately have "ubits q = ubits q'" by (simp add: prefix_order.antisym)
  with assms(1,2) show ?thesis by (intro bits_canon_inject) simp_all
qed

lemma leaf_not_internal:
  assumes "tree_at H p (InternalNode q l r h)" "umap (InternalNode q l r h) = [k \<mapsto> v]"
  shows False
proof -
  obtain k1 k2 where "k1 \<in> {k}" "k2 \<in> {k}"
    "prefix (p @ ubits q @ [False]) (kbits k1)" "prefix (p @ ubits q @ [True]) (kbits k2)"
    using internal_two_keys [OF assms(1)] unfolding assms(2) by auto
  then show False
    using prefix_bit [of "p @ ubits q" False "kbits k"] prefix_bit [of "p @ ubits q" True "kbits k"] by simp
qed

lemma tree_unique: "tree_at H p t \<Longrightarrow> tree_at H p t' \<Longrightarrow> umap t = umap t' \<Longrightarrow> t = t'"
proof (induction t arbitrary: p t')
  case (LeafNode k v h)
  show ?case
  proof (cases t')
    case (LeafNode k' v' h')
    with LeafNode.prems(3) have "[k \<mapsto> v] = [k' \<mapsto> v']" by (simp only: umap.simps)
    then have "k = k'" "v = v'" by (auto dest: fun_cong [of _ _ k] split: if_splits)
    with LeafNode LeafNode.prems show ?thesis by simp
  next
    case (InternalNode q l r h')
    with LeafNode.prems leaf_not_internal [of H p q l r h' k v] show ?thesis
      by (metis umap.simps(1))
  qed
next
  case (InternalNode q l r h)
  show ?case
  proof (cases t')
    case (LeafNode k v h')
    with InternalNode.prems leaf_not_internal [of H p q l r h k v] show ?thesis
      by (metis umap.simps(1))
  next
    case t': (InternalNode q' l' r' h')
    note wf = InternalNode.prems(1) InternalNode.prems(2) [unfolded t']
    note eq = InternalNode.prems(3) [unfolded t']
    have q: "q = q'" by (rule internal_prefix_unique [OF wf arg_cong [OF eq]])
    note side = umap_internal_side [OF wf(1)] and side' = umap_internal_side [OF wf(2), folded q]
    have "umap l = umap l'" unfolding side'(1) eq [folded q, symmetric] by (rule side(1))
    then have "l = l'" using wf q by (intro InternalNode.IH(1) [of "p @ ubits q @ [False]" l']) simp_all
    moreover have "umap r = umap r'" unfolding side'(2) eq [folded q, symmetric] by (rule side(2))
    then have "r = r'" using wf q by (intro InternalNode.IH(2) [of "p @ ubits q @ [True]" r']) simp_all
    ultimately show ?thesis using q t' wf by simp
  qed
qed

lemma root_unique:
  assumes "root_ok H r" "root_ok H r'" "contents r = contents r'"
  shows "r = r'"
proof -
  have "umap n \<noteq> Map.empty" for n using umap_nonempty [of n] by auto
  then show ?thesis
    using assms tree_unique [of H "[]"] by (cases r; cases r') (simp_all add: eq_commute [of Map.empty])
qed

section \<open>A root commits to its contents\<close>

definition hash32 :: "hashers \<Rightarrow> bool" where
  "hash32 H \<longleftrightarrow> (\<forall>bs. length (blake2b256 H bs) = HashSize)"

fun preimages :: "hashers \<Rightarrow> urkelNode \<Rightarrow> bytes set" where
  "preimages H (LeafNode k v h) = {v, leafPreimage k (blake2b256 H v)}"
| "preimages H (InternalNode q l r h) =
     {internalPreimage q (node_hash l) (node_hash r)} \<union> preimages H l \<union> preimages H r"

definition root_preimages :: "hashers \<Rightarrow> urkelNode option \<Rightarrow> bytes set" where
  "root_preimages H root = (case root of None \<Rightarrow> {} | Some n \<Rightarrow> preimages H n)"

text \<open>No collision among the given inputs, and none of them hashes to the hash of the empty tree.\<close>

definition collision_free :: "hashers \<Rightarrow> bytes set \<Rightarrow> bool" where
  "collision_free H S \<longleftrightarrow> inj_on (blake2b256 H) S \<and> zeroHash \<notin> blake2b256 H ` S"

lemma collision_free_subset: "collision_free H S \<Longrightarrow> T \<subseteq> S \<Longrightarrow> collision_free H T"
  by (auto simp: collision_free_def dest: inj_on_subset)

lemma collision_freeD:
  "collision_free H S \<Longrightarrow> x \<in> S \<Longrightarrow> y \<in> S \<Longrightarrow> blake2b256 H x = blake2b256 H y \<Longrightarrow> x = y"
  by (auto simp: collision_free_def dest: inj_onD)

lemma collision_free_nonzero: "collision_free H S \<Longrightarrow> x \<in> S \<Longrightarrow> blake2b256 H x \<noteq> zeroHash"
  by (auto simp: collision_free_def image_iff)

lemma length_hash32 [simp]: "hash32 H \<Longrightarrow> length (blake2b256 H bs) = HashSize"
  by (simp add: hash32_def)

lemma length_node_hash: "hash32 H \<Longrightarrow> tree_at H p t \<Longrightarrow> length (node_hash t) = HashSize"
  by (cases t) (simp_all add: hashUrkelValue_def hashUrkelLeaf_def hashUrkelInternal_def del: HashSize_def)

fun topPreimage :: "hashers \<Rightarrow> urkelNode \<Rightarrow> bytes" where
  "topPreimage H (LeafNode k v h) = leafPreimage k (blake2b256 H v)"
| "topPreimage H (InternalNode q l r h) = internalPreimage q (node_hash l) (node_hash r)"

lemma topPreimage_in [simp]: "topPreimage H t \<in> preimages H t"
  by (cases t) simp_all

lemma node_hash_topPreimage: "tree_at H p t \<Longrightarrow> node_hash t = blake2b256 H (topPreimage H t)"
  by (cases t) (simp_all add: hashUrkelValue_def hashUrkelLeaf_def hashUrkelInternal_def)

lemma leafPreimage_inject:
  "length k = length k' \<Longrightarrow> leafPreimage k x = leafPreimage k' x' \<longleftrightarrow> k = k' \<and> x = x'"
  by (simp add: leafPreimage_def)

lemma leaf_internal_preimage [simp]:
  "leafPreimage k x \<noteq> internalPreimage q l r" "internalPreimage q l r \<noteq> leafPreimage k x"
  by (simp_all add: leafPreimage_def internalPreimage_def)

text \<open>The prefix enters the preimage through its size and the bytes it occupies.\<close>

definition same_bits :: "urkelBits \<Rightarrow> urkelBits \<Rightarrow> bool" where
  "same_bits q q' \<longleftrightarrow> ub_size q = ub_size q' \<and>
     take (bits_byteSize q) (ub_data q) = take (bits_byteSize q') (ub_data q')"

lemma urkelBit_take: "i div 8 < n \<Longrightarrow> urkelBit (take n d) i = urkelBit d i"
  by (simp add: urkelBit_def)

lemma same_bits_ubits:
  assumes "same_bits q q'"
  shows "ubits q = ubits q'"
proof -
  have s: "ub_size q = ub_size q'" using assms by (simp add: same_bits_def)
  have "bits_get q i = bits_get q' i" if "i < ub_size q" for i
  proof -
    have "i div 8 < bits_byteSize q" "i div 8 < bits_byteSize q'"
      using that s by (simp_all add: bits_byteSize_def)
    then show ?thesis
      using assms urkelBit_take [of i "bits_byteSize q" "ub_data q"] urkelBit_take [of i "bits_byteSize q'" "ub_data q'"]
      by (simp add: same_bits_def bits_get_def)
  qed
  with s show ?thesis by (simp add: ubits_def)
qed

lemma internalPreimage_inject:
  assumes "bits_ok q" "bits_ok q'" "length l = HashSize" "length l' = HashSize"
    and "internalPreimage q l r = internalPreimage q' l' r'"
  shows "same_bits q q' \<and> l = l' \<and> r = r'"
proof (cases "ub_size q = 0 \<or> ub_size q' = 0")
  case True
  then show ?thesis
    using assms(3-5) by (auto simp: internalPreimage_def same_bits_def bits_byteSize_def split: if_split_asm)
next
  case False
  let ?d = "take (bits_byteSize q) (ub_data q)" and ?d' = "take (bits_byteSize q') (ub_data q')"
  have e: "PutUint16 (of_nat (ub_size q)) @ ?d @ l @ r = PutUint16 (of_nat (ub_size q')) @ ?d' @ l' @ r'"
    using assms(5) False by (simp add: internalPreimage_def)
  then have "PutUint16 (of_nat (ub_size q)) = PutUint16 (of_nat (ub_size q'))" and
    f: "?d @ l @ r = ?d' @ l' @ r'" by simp_all
  then have "(of_nat (ub_size q) :: u16) = of_nat (ub_size q')" by (metis Uint_PutUint(1))
  moreover have "unat (of_nat (ub_size q) :: u16) = ub_size q" "unat (of_nat (ub_size q') :: u16) = ub_size q'"
    using assms(1,2) by (simp_all add: bits_ok_def urkelKeyBits_def unat_of_nat)
  ultimately have s: "ub_size q = ub_size q'" by metis
  then have "length ?d = length ?d'" using assms(1,2) by (simp add: bits_byteSize_def bits_ok_def)
  then have "?d = ?d' \<and> l @ r = l' @ r'" using f by (rule append_eq_append_conv [THEN iffD1, OF disjI1])
  then show ?thesis using s assms(3,4) unfolding same_bits_def by simp
qed

lemma same_hash_same_preimage:
  assumes "tree_at H p t" "tree_at H p' t'" "node_hash t = node_hash t'"
    and "collision_free H (preimages H t \<union> preimages H t')"
  shows "topPreimage H t = topPreimage H t'"
  using assms(3) unfolding node_hash_topPreimage [OF assms(1)] node_hash_topPreimage [OF assms(2)]
  by (rule collision_freeD [OF assms(4), rotated 2]) simp_all

lemma internal_same_hash:
  assumes "hash32 H" "tree_at H p (InternalNode q l r h)" "tree_at H p' (InternalNode q' l' r' h')"
    and "topPreimage H (InternalNode q l r h) = topPreimage H (InternalNode q' l' r' h')"
  shows "ubits q = ubits q'" "node_hash l = node_hash l'" "node_hash r = node_hash r'"
proof -
  have "length (node_hash l) = HashSize" "length (node_hash l') = HashSize"
    using assms(2,3) length_node_hash [OF assms(1)] unfolding tree_at.simps by blast+
  then have "same_bits q q' \<and> node_hash l = node_hash l' \<and> node_hash r = node_hash r'"
    using assms(2-4) by (intro internalPreimage_inject) (simp_all add: bits_canonD)
  then show "ubits q = ubits q'" "node_hash l = node_hash l'" "node_hash r = node_hash r'"
    by (simp_all add: same_bits_ubits)
qed

lemma hash_determines_tree:
  assumes "hash32 H"
  shows "tree_at H p t \<Longrightarrow> tree_at H p t' \<Longrightarrow> node_hash t = node_hash t' \<Longrightarrow>
    collision_free H (preimages H t \<union> preimages H t') \<Longrightarrow> umap t = umap t'"
proof (induction t arbitrary: p t')
  case (LeafNode k v h)
  note same = same_hash_same_preimage [OF LeafNode.prems]
  show ?case
  proof (cases t')
    case t': (LeafNode k' v' h')
    have "k = k' \<and> blake2b256 H v = blake2b256 H v'"
      using same LeafNode.prems(1,2) leafPreimage_inject [of k k'] by (simp add: t')
    moreover from this have "v = v'"
      by (intro collision_freeD [OF LeafNode.prems(4), of v v']) (simp_all add: t')
    ultimately show ?thesis by (simp add: t')
  qed (use same in simp)
next
  case (InternalNode q l r h)
  note same = same_hash_same_preimage [OF InternalNode.prems]
  show ?case
  proof (cases t')
    case t': (InternalNode q' l' r' h')
    note wf = InternalNode.prems(1) InternalNode.prems(2) [unfolded t']
    note eq = internal_same_hash [OF assms wf same [unfolded t']]
    have sub: "collision_free H (preimages H l \<union> preimages H l')" "collision_free H (preimages H r \<union> preimages H r')"
      by (rule collision_free_subset [OF InternalNode.prems(4)], auto simp: t')+
    have "umap l = umap l'"
      using wf eq(1) by (intro InternalNode.IH(1) [OF _ _ eq(2) sub(1), of "p @ ubits q @ [False]"]) simp_all
    moreover have "umap r = umap r'"
      using wf eq(1) by (intro InternalNode.IH(2) [OF _ _ eq(3) sub(2), of "p @ ubits q @ [True]"]) simp_all
    ultimately show ?thesis by (simp add: t')
  qed (use same in simp)
qed

lemma root_hash_determines_contents:
  assumes "hash32 H" "root_ok H r" "root_ok H r'" "root_hash r = root_hash r'"
    and "collision_free H (root_preimages H r \<union> root_preimages H r')"
  shows "contents r = contents r'"
proof -
  have z: "node_hash n \<noteq> zeroHash" if "tree_at H [] n" "collision_free H (preimages H n)" for n
    using collision_free_nonzero [OF that(2) topPreimage_in] by (simp add: node_hash_topPreimage [OF that(1)])
  show ?thesis
  proof (cases r; cases r')
    fix n assume "r = None" "r' = Some n"
    then show ?thesis using z [of n] assms(3-5) unfolding root_hash_def root_preimages_def by force
  next
    fix n assume "r = Some n" "r' = None"
    then show ?thesis using z [of n] assms(2,4,5) unfolding root_hash_def root_preimages_def by force
  next
    fix n n' assume rs: "r = Some n" "r' = Some n'"
    show ?thesis
      using assms(2-5) unfolding rs root_hash_def root_preimages_def contents_simps root_ok_simps option.case
      by (rule hash_determines_tree [OF assms(1)])
  qed simp
qed

section \<open>Properties\<close>

text \<open>Stand-in hash functions for the concrete examples: 32 lanes that absorb the input in turn.\<close>

definition ex_absorb :: "byte \<Rightarrow> bytes \<Rightarrow> bytes" where
  "ex_absorb b lanes = tl lanes @ [hd lanes * 3 + b]"

definition ex_hash :: "bytes \<Rightarrow> hash" where
  "ex_hash bs = fold ex_absorb bs (replicate HashSize 1)"

definition ex_hashes :: hashers where
  "ex_hashes = \<lparr>blake2b256 = ex_hash, blake2b512 = (\<lambda>bs. bs), sha3_256 = ex_hash\<rparr>"

lemma hash32_ex_hashes [simp]: "hash32 ex_hashes"
proof -
  have "length (fold ex_absorb bs ls) = HashSize" if "length ls = HashSize" for bs and ls :: bytes
    using that by (induction bs arbitrary: ls) (simp_all add: ex_absorb_def)
  then show ?thesis by (simp add: hash32_def ex_hashes_def ex_hash_def)
qed

fun preimage_list :: "hashers \<Rightarrow> urkelNode \<Rightarrow> bytes list" where
  "preimage_list H (LeafNode k v h) = [v, leafPreimage k (blake2b256 H v)]"
| "preimage_list H (InternalNode q l r h) =
     internalPreimage q (node_hash l) (node_hash r) # preimage_list H l @ preimage_list H r"

lemma collision_free_list:
  "distinct (map (blake2b256 H) xs) \<Longrightarrow> zeroHash \<notin> set (map (blake2b256 H) xs) \<Longrightarrow> S \<subseteq> set xs \<Longrightarrow>
     collision_free H S"
  by (auto simp: collision_free_def distinct_map dest: inj_on_subset)

lemma preimages_list: "preimages H t = set (preimage_list H t)"
  by (induction t) auto

lemma root_preimages_list: "root_preimages H root \<subseteq> set (preimage_list H (the root))"
  by (cases root) (simp_all add: root_preimages_def preimages_list)

lemma buildUrkelTree_ok:
  assumes "\<And>k v. (k, v) \<in> set leaves \<Longrightarrow> length k = HashSize" "distinct (map fst leaves)"
  shows "\<exists>root. buildUrkelTree H leaves = Inr root \<and> root_ok H root \<and> contents root = map_of leaves"
proof (cases "leaves = []")
  case False
  let ?s = "sort_key fst leaves"
  have d: "distinct (map fst ?s)" using assms(2) by (metis distinct_map distinct_sort inj_on_cong set_sort)
  obtain root where "insertAll H None ?s = Inr root" "root_ok H root" "contents root = map_of (rev ?s)"
    using insertAll_ok [of H None ?s] assms(1) by auto
  moreover have "map_of (rev ?s) = map_of leaves"
    using d assms(2) by (intro map_of_reorder) (simp_all add: rev_map [symmetric])
  ultimately show ?thesis using False by (simp add: buildUrkelTree_def)
qed (simp add: buildUrkelTree_def)

text \<open>C7: For leaves with distinct 32-byte keys, building the name tree never panics, and inserting
  the same leaves in any other order gives the very same tree, hence the same root as
  \<open>calcUrkelRoot\<close>; the tree contains exactly the given leaves.\<close>

theorem urkel_root_order_independent:
  assumes "distinct (map fst leaves)" "\<forall>(k, v)\<in>set leaves. length k = HashSize"
    and "distinct (map fst leaves')" "set leaves' = set leaves"
  shows "\<exists>root. buildUrkelTree H leaves = Inr root \<and> insertAll H None leaves' = Inr root \<and>
    calcUrkelRoot H leaves = Inr (root_hash root) \<and> contents root = map_of leaves"
proof -
  obtain root where r: "buildUrkelTree H leaves = Inr root" "root_ok H root" "contents root = map_of leaves"
    using buildUrkelTree_ok [of leaves H] assms(1,2) by auto
  obtain root' where r': "insertAll H None leaves' = Inr root'" "root_ok H root'"
    "contents root' = map_of (rev leaves')"
    using insertAll_ok [of H None leaves'] assms(2,4) by auto
  have "map_of (rev leaves') = map_of leaves"
    using assms by (intro map_of_reorder) (simp_all add: rev_map [symmetric])
  then have "root' = root" using r r' by (intro root_unique [of H]) simp_all
  with r r' show ?thesis by (simp add: calcUrkelRoot_def)
qed

definition ex_key1 :: hash where "ex_key1 = replicate 32 0"
definition ex_key2 :: hash where "ex_key2 = 128 # replicate 31 0"

theorem urkel_root_order_independent_witness:
  "\<exists>root. insertAll ex_hashes None [(ex_key2, [5]), (ex_key1, [4])] = Inr root \<and> contents root ex_key2 = Some [5]"
proof -
  have ne: "ex_key1 \<noteq> ex_key2" by code_simp
  then have "\<exists>root. buildUrkelTree ex_hashes [(ex_key1, [4]), (ex_key2, [5])] = Inr root \<and>
      insertAll ex_hashes None [(ex_key2, [5]), (ex_key1, [4])] = Inr root \<and>
      calcUrkelRoot ex_hashes [(ex_key1, [4]), (ex_key2, [5])] = Inr (root_hash root) \<and>
      contents root = map_of [(ex_key1, [4]), (ex_key2, [5])]"
    by (intro urkel_root_order_independent) (auto simp: ex_key1_def ex_key2_def)
  with ne show ?thesis by auto
qed

text \<open>C6: The root commits to the contents. Two sets of leaves with the same \<open>calcUrkelRoot\<close> have
  the same value, or none, under every key, provided BLAKE2b has no collision among the inputs
  hashed for the two trees and maps none of them to the all-zero root of the empty tree.\<close>

theorem urkel_root_commits:
  assumes "distinct (map fst leaves)" "\<forall>(k, v)\<in>set leaves. length k = HashSize"
    and "distinct (map fst leaves')" "\<forall>(k, v)\<in>set leaves'. length k = HashSize"
    and "hash32 H" "buildUrkelTree H leaves = Inr t" "buildUrkelTree H leaves' = Inr t'"
    and "collision_free H (root_preimages H t \<union> root_preimages H t')"
    and "calcUrkelRoot H leaves = calcUrkelRoot H leaves'"
  shows "map_of leaves = map_of leaves'"
proof -
  have "root_ok H t" "contents t = map_of leaves" "root_ok H t'" "contents t' = map_of leaves'"
    using buildUrkelTree_ok [of leaves H] buildUrkelTree_ok [of leaves' H] assms(1-7) by auto
  moreover have "root_hash t = root_hash t'" using assms(6,7,9) by (simp add: calcUrkelRoot_def)
  ultimately show ?thesis using root_hash_determines_contents [OF assms(5)] assms(8) by metis
qed

definition ex_tree :: "urkelNode option" where
  "ex_tree = projr (buildUrkelTree ex_hashes [(ex_key1, [4]), (ex_key2, [5])])"

theorem urkel_root_commits_witness:
  "map_of [(ex_key1, [4]), (ex_key2, [5])] = map_of [(ex_key2, [5]), (ex_key1, [4 :: byte])]"
proof (rule urkel_root_commits [where H = ex_hashes and t = ex_tree and t' = ex_tree])
  show "buildUrkelTree ex_hashes [(ex_key1, [4]), (ex_key2, [5])] = Inr ex_tree" by code_simp
  show "buildUrkelTree ex_hashes [(ex_key2, [5]), (ex_key1, [4])] = Inr ex_tree" by code_simp
  have "let xs = preimage_list ex_hashes (the ex_tree) in
      distinct (map (blake2b256 ex_hashes) xs) \<and> zeroHash \<notin> set (map (blake2b256 ex_hashes) xs)"
    by code_simp
  then show "collision_free ex_hashes (root_preimages ex_hashes ex_tree \<union> root_preimages ex_hashes ex_tree)"
    by (intro collision_free_list [of ex_hashes "preimage_list ex_hashes (the ex_tree)"])
      (simp_all add: Let_def root_preimages_list)
qed (code_simp, code_simp, code_simp, code_simp, simp, code_simp)

end
