(* ===== verification/Urkel_Proof.thy ===== *)
theory Urkel_Proof
  imports Urkel_Tree
begin

text \<open>
  Inclusion and exclusion proofs of the name tree (src/blockchain/urkel.go, \<open>proveUrkel\<close>,
  \<open>isSane\<close>, \<open>Verify\<close>). The lemmas show completeness (the proof built for any key verifies and
  gives the value or its absence) and soundness (no proof verifies for a wrong answer, unless a
  hash collision is exhibited). A nil value is the empty list: both places that build a proof
  copy the value with \<open>append([]byte(nil), ...)\<close>, which yields nil exactly for an empty one.
\<close>

section \<open>Proofs\<close>

abbreviation (input) urkelProofTypeDeadend :: byte where "urkelProofTypeDeadend \<equiv> 0"
abbreviation (input) urkelProofTypeShort :: byte where "urkelProofTypeShort \<equiv> 1"
abbreviation (input) urkelProofTypeCollision :: byte where "urkelProofTypeCollision \<equiv> 2"
abbreviation (input) urkelProofTypeExists :: byte where "urkelProofTypeExists \<equiv> 3"

definition maxUrkelProofValue :: nat where "maxUrkelProofValue = 0xffff"

record urkelProofNode =
  pn_prefix :: urkelBits
  pn_node :: hash

record UrkelProof =
  up_typ :: byte
  up_depth :: nat
  up_nodes :: "urkelProofNode list"
  up_prefix :: urkelBits
  up_left :: hash
  up_right :: hash
  up_key :: hash
  up_valueHash :: hash
  up_value :: bytes

definition emptyUrkelProof :: UrkelProof where
  "emptyUrkelProof = \<lparr>up_typ = 0, up_depth = 0, up_nodes = [], up_prefix = emptyUrkelBits,
     up_left = zeroHash, up_right = zeroHash, up_key = zeroHash, up_valueHash = zeroHash, up_value = []\<rparr>"

primrec proveNode :: "hashers \<Rightarrow> urkelNode \<Rightarrow> hash \<Rightarrow> UrkelProof \<Rightarrow> nat \<Rightarrow> UrkelProof result" where
  "proveNode H (InternalNode pre left right hashValue) key proof' depth =
     (if \<not> bits_has pre key depth then
        Inr (proof'\<lparr>up_typ := urkelProofTypeShort, up_depth := depth, up_prefix := pre,
                    up_left := node_hash left, up_right := node_hash right\<rparr>)
      else rbind (urkelHasBit key (depth + ub_size pre)) (\<lambda>b.
        if b then
          proveNode H right key
            (proof'\<lparr>up_nodes := up_nodes proof' @ [\<lparr>pn_prefix = pre, pn_node = node_hash left\<rparr>]\<rparr>)
            (depth + ub_size pre + 1)
        else
          proveNode H left key
            (proof'\<lparr>up_nodes := up_nodes proof' @ [\<lparr>pn_prefix = pre, pn_node = node_hash right\<rparr>]\<rparr>)
            (depth + ub_size pre + 1)))"
| "proveNode H (LeafNode k v hashValue) key proof' depth =
     (if k = key then Inr (proof'\<lparr>up_depth := depth, up_typ := urkelProofTypeExists, up_value := v\<rparr>)
      else Inr (proof'\<lparr>up_depth := depth, up_typ := urkelProofTypeCollision, up_key := k,
                       up_valueHash := blake2b256 H v\<rparr>))"

definition proveUrkel :: "hashers \<Rightarrow> urkelNode option \<Rightarrow> hash \<Rightarrow> UrkelProof result" where
  "proveUrkel H root key =
     (case root of
        None \<Rightarrow> Inr (emptyUrkelProof\<lparr>up_typ := urkelProofTypeDeadend, up_depth := 0\<rparr>)
      | Some n \<Rightarrow> proveNode H n key emptyUrkelProof 0)"

definition isSane :: "UrkelProof \<Rightarrow> bool" where
  "isSane p \<longleftrightarrow>
     up_depth p \<le> urkelKeyBits \<and> length (up_nodes p) \<le> urkelKeyBits \<and>
     (\<forall>node\<in>set (up_nodes p). ub_size (pn_prefix node) \<le> urkelKeyBits) \<and>
     (if up_typ p = urkelProofTypeDeadend then True
      else if up_typ p = urkelProofTypeShort then 0 < ub_size (up_prefix p) \<and> ub_size (up_prefix p) \<le> urkelKeyBits
      else if up_typ p = urkelProofTypeCollision then True
      else if up_typ p = urkelProofTypeExists then up_value p \<noteq> [] \<and> length (up_value p) \<le> maxUrkelProofValue
      else False)"

definition verifyStart :: "hashers \<Rightarrow> UrkelProof \<Rightarrow> hash \<Rightarrow> hash result" where
  "verifyStart H p key =
     (if up_typ p = urkelProofTypeDeadend then Inr zeroHash
      else if up_typ p = urkelProofTypeShort then
        rbind (failIf (bits_has (up_prefix p) key (up_depth p)) (OtherError ''urkel proof follows same path''))
          (\<lambda>_. Inr (hashUrkelInternal H (up_prefix p) (up_left p) (up_right p)))
      else if up_typ p = urkelProofTypeCollision then
        rbind (failIf (up_key p = key) (OtherError ''urkel proof has same key''))
          (\<lambda>_. Inr (hashUrkelLeaf H (up_key p) (up_valueHash p)))
      else if up_typ p = urkelProofTypeExists then Inr (hashUrkelValue H key (up_value p))
      else Inl (OtherError ''unknown urkel proof type''))"

fun verifyNodes :: "hashers \<Rightarrow> hash \<Rightarrow> urkelProofNode list \<Rightarrow> nat \<Rightarrow> hash \<Rightarrow> (nat \<times> hash) result" where
  "verifyNodes H key [] depth next' = Inr (depth, next')"
| "verifyNodes H key (node # nodes) depth next' =
     (if depth < ub_size (pn_prefix node) + 1 then Inl (OtherError ''urkel proof depth underflow'')
      else rbind (urkelHasBit key (depth - 1)) (\<lambda>b.
        let next'' = (if b then hashUrkelInternal H (pn_prefix node) (pn_node node) next'
                      else hashUrkelInternal H (pn_prefix node) next' (pn_node node));
            depth' = depth - 1 - ub_size (pn_prefix node)
        in if \<not> bits_has (pn_prefix node) key depth' then Inl (OtherError ''urkel proof path mismatch'')
           else verifyNodes H key nodes depth' next''))"

definition Verify :: "hashers \<Rightarrow> UrkelProof \<Rightarrow> hash \<Rightarrow> hash \<Rightarrow> (bytes \<times> bool) result" where
  "Verify H p root key =
     rbind (failIf (\<not> isSane p) (OtherError ''urkel proof is not sane'')) (\<lambda>_.
     rbind (verifyStart H p key) (\<lambda>next'.
     rbind (verifyNodes H key (rev (up_nodes p)) (up_depth p) next') (\<lambda>(depth, next').
     rbind (failIf (depth \<noteq> 0) (OtherError ''urkel proof is too deep'')) (\<lambda>_.
     rbind (failIf (next' \<noteq> root) (OtherError ''urkel proof root mismatch'')) (\<lambda>_.
     if up_typ p \<noteq> urkelProofTypeExists then Inr ([], False) else Inr (up_value p, True))))))"

section \<open>Completeness\<close>

definition answer :: "(hash \<rightharpoonup> bytes) \<Rightarrow> hash \<Rightarrow> bytes \<times> bool" where
  "answer m key = (case m key of Some v \<Rightarrow> (v, True) | None \<Rightarrow> ([], False))"

definition finalAnswer :: "UrkelProof \<Rightarrow> bytes \<times> bool" where
  "finalAnswer p = (if up_typ p \<noteq> urkelProofTypeExists then ([], False) else (up_value p, True))"

lemma verifyNodes_append:
  "verifyNodes H key (xs @ ys) depth n =
     rbind (verifyNodes H key xs depth n) (\<lambda>(depth', n'). verifyNodes H key ys depth' n')"
  by (induction H key xs depth n rule: verifyNodes.induct) (auto simp: Let_def rbind_def split: sum.split)

lemma umap_other_side:
  assumes "tree_at H p (InternalNode q l r h)" "length key = HashSize" "prefix p (kbits key)"
  shows "\<not> bits_has q key (length p) \<Longrightarrow> umap (InternalNode q l r h) key = None"
    and "\<not> kbits key ! (length p + ub_size q) \<Longrightarrow> umap (InternalNode q l r h) key = umap l key"
    and "kbits key ! (length p + ub_size q) \<Longrightarrow> umap (InternalNode q l r h) key = umap r key"
proof -
  show "umap (InternalNode q l r h) key = None" if "\<not> bits_has q key (length p)"
  proof (rule ccontr)
    assume "umap (InternalNode q l r h) key \<noteq> None"
    then have "prefix (p @ ubits q) (kbits key)" using internal_keys [OF assms(1), of key] by blast
    then show False using that assms(3) by (simp add: bits_has_iff drop_prefix)
  qed
  note side = fun_cong [OF umap_internal_side(1) [OF assms(1)], of key]
    fun_cong [OF umap_internal_side(2) [OF assms(1)], of key]
  show "umap (InternalNode q l r h) key = umap l key" if "\<not> kbits key ! (length p + ub_size q)"
    unfolding side(1) using that by (simp add: restrict_map_def)
  show "umap (InternalNode q l r h) key = umap r key" if "kbits key ! (length p + ub_size q)"
    unfolding side(2) using that by (simp add: restrict_map_def)
qed

lemma key_child:
  assumes "tree_at H p (InternalNode q l r h)" "length key = HashSize" "prefix p (kbits key)"
    and "bits_has q key (length p)"
  shows "prefix (p @ ubits q @ [kbits key ! (length p + ub_size q)]) (kbits key)"
    and "length p + ub_size q < 8 * length key"
proof -
  show d: "length p + ub_size q < 8 * length key"
    using tree_at_child_depth [OF assms(1)] assms(2) by (simp add: urkelKeyBits_def)
  have "prefix (p @ ubits q) (kbits key)" using assms(3,4) by (simp add: bits_has_iff drop_prefix)
  then show "prefix (p @ ubits q @ [kbits key ! (length p + ub_size q)]) (kbits key)"
    using prefix_bit [of "p @ ubits q" _ "kbits key"] d by simp
qed

text \<open>What a run of \<open>proveNode\<close> from a position of the tree delivers.\<close>

definition proves :: "hashers \<Rightarrow> urkelNode \<Rightarrow> hash \<Rightarrow> nat \<Rightarrow> UrkelProof \<Rightarrow> UrkelProof \<Rightarrow> bool" where
  "proves H t key depth p0 p \<longleftrightarrow>
     (\<exists>path next'. up_nodes p = up_nodes p0 @ path \<and> verifyStart H p key = Inr next' \<and>
        verifyNodes H key (rev path) (up_depth p) next' = Inr (depth, node_hash t) \<and>
        depth + length path \<le> up_depth p \<and> up_depth p \<le> urkelKeyBits \<and>
        (\<forall>n\<in>set path. ub_size (pn_prefix n) \<le> urkelKeyBits) \<and>
        up_typ p \<in> {urkelProofTypeShort, urkelProofTypeCollision, urkelProofTypeExists} \<and>
        (up_typ p = urkelProofTypeShort \<longrightarrow> 0 < ub_size (up_prefix p) \<and> ub_size (up_prefix p) \<le> urkelKeyBits) \<and>
        finalAnswer p = answer (umap t) key)"

lemma proves_step:
  assumes t: "tree_at H p (InternalNode q l r h)" and key: "length key = HashSize" "prefix p (kbits key)"
    and has: "bits_has q key (length p)"
    and b: "b = kbits key ! (length p + ub_size q)"
    and child: "child = (if b then r else l)" and sibling: "sibling = (if b then l else r)"
    and IH: "proves H child key (length p + ub_size q + 1)
      (p0\<lparr>up_nodes := up_nodes p0 @ [\<lparr>pn_prefix = q, pn_node = node_hash sibling\<rparr>]\<rparr>) p'"
  shows "proves H (InternalNode q l r h) key (length p) p0 p'"
proof -
  let ?n = "\<lparr>pn_prefix = q, pn_node = node_hash sibling\<rparr>"
  obtain path next' where path: "up_nodes p' = up_nodes p0 @ [?n] @ path" "verifyStart H p' key = Inr next'"
    "verifyNodes H key (rev path) (up_depth p') next' = Inr (length p + ub_size q + 1, node_hash child)"
    "length p + ub_size q + 1 + length path \<le> up_depth p'" "up_depth p' \<le> urkelKeyBits"
    "\<forall>n\<in>set path. ub_size (pn_prefix n) \<le> urkelKeyBits"
    "up_typ p' \<in> {urkelProofTypeShort, urkelProofTypeCollision, urkelProofTypeExists}"
    "up_typ p' = urkelProofTypeShort \<longrightarrow> 0 < ub_size (up_prefix p') \<and> ub_size (up_prefix p') \<le> urkelKeyBits"
    "finalAnswer p' = answer (umap child) key"
    using IH unfolding proves_def by auto
  have h: "h = hashUrkelInternal H q (node_hash l) (node_hash r)" "ub_size q \<le> urkelKeyBits"
    using t by (simp_all add: bits_canon_def bits_ok_def)
  have "verifyNodes H key [?n] (length p + ub_size q + 1) (node_hash child) = Inr (length p, h)"
    using key_child(2) [OF t key has] has h(1) by (simp add: urkelHasBit_ok b [symmetric] child sibling Let_def)
  then have "verifyNodes H key (rev ([?n] @ path)) (up_depth p') next' = Inr (length p, h)"
    using path(3) by (simp only: rev_append verifyNodes_append rbind_simps prod.case rev.simps append_Nil)
  moreover have "umap child key = umap (InternalNode q l r h) key"
    using umap_other_side(2,3) [OF t key] b child by simp
  then have "finalAnswer p' = answer (umap (InternalNode q l r h)) key"
    using path(9) unfolding answer_def by (simp only:)
  ultimately show ?thesis
    unfolding proves_def using path(1,2,4-8) h(2) by (intro exI [of _ "[?n] @ path"] exI [of _ next']) auto
qed

lemma proveNode_ok:
  assumes "tree_at H p t" "length key = HashSize" "prefix p (kbits key)"
  shows "\<exists>p'. proveNode H t key p0 (length p) = Inr p' \<and> proves H t key (length p) p0 p'"
  using assms
proof (induction t arbitrary: p p0)
  case (LeafNode k v h)
  then have "length p \<le> urkelKeyBits" using tree_at_depth by blast
  with LeafNode show ?case
    by (auto simp: proves_def verifyStart_def finalAnswer_def answer_def hashUrkelValue_def)
next
  case (InternalNode q l r h)
  note t = InternalNode.prems
  show ?case
  proof (cases "bits_has q key (length p)")
    case False
    then have "0 < ub_size q" by (cases "ub_size q") (simp_all add: bits_has_iff ubits_def)
    moreover have "ub_size q \<le> urkelKeyBits" "length p \<le> urkelKeyBits"
      using t tree_at_depth [OF t(1)] by (simp_all add: bits_canon_def bits_ok_def)
    moreover have "answer (umap (InternalNode q l r h)) key = ([], False)"
      unfolding answer_def umap_other_side(1) [OF t False] by simp
    ultimately show ?thesis using False t(1)
      by (simp add: proves_def verifyStart_def finalAnswer_def)
  next
    case True
    let ?b = "kbits key ! (length p + ub_size q)"
    let ?child = "if ?b then r else l" and ?sib = "if ?b then l else r"
    let ?p0 = "p0\<lparr>up_nodes := up_nodes p0 @ [\<lparr>pn_prefix = q, pn_node = node_hash ?sib\<rparr>]\<rparr>"
    note c = key_child [OF t True]
    obtain p' where "proveNode H ?child key ?p0 (length p + ub_size q + 1) = Inr p'"
      "proves H ?child key (length p + ub_size q + 1) ?p0 p'"
      using InternalNode.IH(1) [of "p @ ubits q @ [False]" ?p0] InternalNode.IH(2) [of "p @ ubits q @ [True]" ?p0] t c(1)
      by (cases ?b) auto
    then show ?thesis
      using proves_step [OF t True refl refl refl] c(2) True by (cases ?b) (auto simp: urkelHasBit_ok)
  qed
qed

text \<open>Completeness: for every well-formed tree and every 32-byte key,
  \<open>proveUrkel\<close> returns (it does not panic) a proof, and as long as the stored values are non-empty
  and at most 65535 bytes the proof verifies against the root: with the stored value and true when
  the key is in the tree, with no value and false when it is not.\<close>

lemma urkel_proof_complete:
  assumes "root_ok H root" "length key = HashSize"
    and "\<forall>v\<in>ran (contents root). v \<noteq> [] \<and> length v \<le> maxUrkelProofValue"
  shows "\<exists>p. proveUrkel H root key = Inr p \<and>
    Verify H p (root_hash root) key = Inr (answer (contents root) key)"
proof (cases root)
  case None
  then show ?thesis
    by (simp add: proveUrkel_def Verify_def isSane_def verifyStart_def emptyUrkelProof_def root_hash_def
        answer_def)
next
  case (Some t)
  obtain p where p: "proveNode H t key emptyUrkelProof 0 = Inr p" "proves H t key 0 emptyUrkelProof p"
    using proveNode_ok [of H "[]" t key emptyUrkelProof] assms(1,2) Some by auto
  then have "answer (umap t) key = finalAnswer p" by (auto simp: proves_def)
  then have "up_typ p = urkelProofTypeExists \<Longrightarrow> up_value p \<noteq> [] \<and> length (up_value p) \<le> maxUrkelProofValue"
    using assms(3) Some by (auto simp: answer_def finalAnswer_def ran_def split: option.split_asm if_split_asm)
  then have "isSane p" using p(2) by (auto simp: proves_def isSane_def emptyUrkelProof_def)
  with p Some show ?thesis
    by (auto simp: proves_def proveUrkel_def Verify_def root_hash_def finalAnswer_def emptyUrkelProof_def)
qed

section \<open>Soundness\<close>

definition startPreimages :: "hashers \<Rightarrow> UrkelProof \<Rightarrow> hash \<Rightarrow> bytes set" where
  "startPreimages H p key =
     (if up_typ p = urkelProofTypeShort then {internalPreimage (up_prefix p) (up_left p) (up_right p)}
      else if up_typ p = urkelProofTypeCollision then {leafPreimage (up_key p) (up_valueHash p)}
      else if up_typ p = urkelProofTypeExists then {up_value p, leafPreimage key (blake2b256 H (up_value p))}
      else {})"

definition stepPreimage :: "hash \<Rightarrow> urkelProofNode \<Rightarrow> nat \<Rightarrow> hash \<Rightarrow> bytes" where
  "stepPreimage key node depth next' =
     (if urkelBit key (depth - 1) then internalPreimage (pn_prefix node) (pn_node node) next'
      else internalPreimage (pn_prefix node) next' (pn_node node))"

fun nodesPreimages :: "hashers \<Rightarrow> hash \<Rightarrow> urkelProofNode list \<Rightarrow> nat \<Rightarrow> hash \<Rightarrow> bytes set" where
  "nodesPreimages H key [] depth next' = {}"
| "nodesPreimages H key (node # nodes) depth next' =
     {stepPreimage key node depth next'} \<union>
     nodesPreimages H key nodes (depth - 1 - ub_size (pn_prefix node))
       (blake2b256 H (stepPreimage key node depth next'))"

text \<open>Everything \<open>Verify\<close> hashes when it checks a proof.\<close>

definition proofPreimages :: "hashers \<Rightarrow> UrkelProof \<Rightarrow> hash \<Rightarrow> bytes set" where
  "proofPreimages H p key = startPreimages H p key \<union>
     (case verifyStart H p key of Inl e \<Rightarrow> {}
      | Inr next' \<Rightarrow> nodesPreimages H key (rev (up_nodes p)) (up_depth p) next')"

text \<open>The Go types of the fields: 32-byte hashes, and prefixes over a 32-byte array.\<close>

definition proof_typed :: "UrkelProof \<Rightarrow> bool" where
  "proof_typed p \<longleftrightarrow> bits_ok (up_prefix p) \<and> length (up_left p) = HashSize \<and> length (up_right p) = HashSize \<and>
     length (up_key p) = HashSize \<and> length (up_valueHash p) = HashSize \<and>
     (\<forall>n\<in>set (up_nodes p). bits_ok (pn_prefix n) \<and> length (pn_node n) = HashSize)"

lemma length_hashUrkel [simp]:
  "hash32 H \<Longrightarrow> length (hashUrkelInternal H q l r) = HashSize"
  "hash32 H \<Longrightarrow> length (hashUrkelLeaf H k vh) = HashSize"
  "hash32 H \<Longrightarrow> length (hashUrkelValue H k v) = HashSize"
  by (simp_all only: hashUrkelInternal_def hashUrkelLeaf_def hashUrkelValue_def length_hash32)

lemma verifyStart_length: "hash32 H \<Longrightarrow> verifyStart H p key = Inr h \<Longrightarrow> length h = HashSize"
  by (auto simp: verifyStart_def failIf_def simp del: HashSize_def split: if_split_asm)

lemma verifyNodes_step:
  assumes "length key = HashSize" "depth \<le> urkelKeyBits"
  shows "verifyNodes H key (n # ns) depth h = Inr x \<longleftrightarrow>
    ub_size (pn_prefix n) + 1 \<le> depth \<and> bits_has (pn_prefix n) key (depth - 1 - ub_size (pn_prefix n)) \<and>
    verifyNodes H key ns (depth - 1 - ub_size (pn_prefix n)) (blake2b256 H (stepPreimage key n depth h)) = Inr x"
proof (cases "ub_size (pn_prefix n) + 1 \<le> depth")
  case True
  then have "depth - 1 < 8 * length key" using assms by (simp add: urkelKeyBits_def)
  with True show ?thesis
    by (auto simp: urkelHasBit_ok hashUrkelInternal_def stepPreimage_def Let_def)
qed simp

lemma verifyNodes_depth: "verifyNodes H key ns depth h = Inr (d, h') \<Longrightarrow> d \<le> depth"
proof (induction ns arbitrary: depth h)
  case (Cons n ns)
  then show ?case by (auto simp: result_simps Let_def split: if_split_asm dest: Cons.IH)
qed simp

lemma verifyNodes_length:
  "hash32 H \<Longrightarrow> length h = HashSize \<Longrightarrow> verifyNodes H key ns depth h = Inr (d, h') \<Longrightarrow> length h' = HashSize"
proof (induction ns arbitrary: depth h)
  case (Cons n ns)
  note IH = Cons.IH [OF Cons.prems(1) length_hashUrkel(1) [OF Cons.prems(1)]]
  show ?case using Cons.prems(3) by (auto simp: result_simps Let_def split: if_split_asm dest!: IH)
qed simp

lemma nodesPreimages_append:
  assumes "length key = HashSize"
  shows "depth \<le> urkelKeyBits \<Longrightarrow> verifyNodes H key xs depth h = Inr (d, h') \<Longrightarrow>
    nodesPreimages H key (xs @ ys) depth h = nodesPreimages H key xs depth h \<union> nodesPreimages H key ys d h'"
proof (induction xs arbitrary: depth h)
  case (Cons x xs)
  then show ?case by (auto simp: verifyNodes_step [OF assms] simp del: verifyNodes.simps)
qed simp

text \<open>A proof node on the way to a well-formed tree is an internal node of it.\<close>

lemma verify_one:
  assumes h: "hash32 H" and key: "length key = HashSize" and t: "tree_at H p t" "prefix p (kbits key)"
    and n: "bits_ok (pn_prefix n)" "length (pn_node n) = HashSize" "length h1 = HashSize"
    and hash: "node_hash t = blake2b256 H (stepPreimage key n d1 h1)" and has: "bits_has (pn_prefix n) key (length p)"
    and d: "d1 = length p + ub_size (pn_prefix n) + 1"
    and cf: "collision_free H (preimages H t \<union> {stepPreimage key n d1 h1})"
  shows "\<exists>p' t'. tree_at H p' t' \<and> prefix p' (kbits key) \<and> length p' = d1 \<and> node_hash t' = h1 \<and>
    umap t' key = umap t key \<and> preimages H t' \<subseteq> preimages H t"
proof -
  have top: "topPreimage H t = stepPreimage key n d1 h1"
    using hash unfolding node_hash_topPreimage [OF t(1)] by (rule collision_freeD [OF cf, rotated 2]) simp_all
  then obtain q l r hh where tt: "t = InternalNode q l r hh"
    by (cases t) (auto simp: stepPreimage_def split: if_split_asm)
  let ?b = "urkelBit key (d1 - 1)"
  let ?l = "if ?b then pn_node n else h1" and ?r = "if ?b then h1 else pn_node n"
  have q: "bits_ok q" and "tree_at H (p @ ubits q @ [False]) l" using t(1) by (simp_all add: tt bits_canonD)
  then have l: "length (node_hash l) = HashSize" by (intro length_node_hash [OF h])
  have "internalPreimage q (node_hash l) (node_hash r) = internalPreimage (pn_prefix n) ?l ?r"
    using top by (simp add: tt stepPreimage_def split: if_split_asm)
  then have same: "same_bits q (pn_prefix n) \<and> node_hash l = ?l \<and> node_hash r = ?r"
    using n l by (intro internalPreimage_inject [OF q]) simp_all
  then have u: "ubits q = ubits (pn_prefix n)" "ub_size q = ub_size (pn_prefix n)"
    using same_bits_ubits [of q "pn_prefix n"] by (simp_all only: same_bits_def)
  then have hasq: "bits_has q key (length p)" using has by (simp add: bits_has_iff)
  note c = key_child [OF t(1) [unfolded tt] key t(2) hasq]
  have b: "kbits key ! (length p + ub_size q) = ?b" using c(2) d u by simp
  let ?p' = "p @ ubits q @ [?b]" and ?t' = "if ?b then r else l"
  have "tree_at H ?p' ?t'" using t(1) by (simp add: tt)
  moreover have "umap ?t' key = umap t key"
  proof (cases ?b)
    case True
    with umap_other_side(3) [OF t(1) [unfolded tt] key t(2)] b show ?thesis by (simp only: tt if_True)
  next
    case False
    with umap_other_side(2) [OF t(1) [unfolded tt] key t(2)] b show ?thesis by (simp only: tt if_False not_False_eq_True simp_thms)
  qed
  moreover have "node_hash ?t' = h1" using same by simp
  moreover have "preimages H ?t' \<subseteq> preimages H t" by (auto simp: tt)
  ultimately show ?thesis using c(1) d u unfolding b by (intro exI [of _ ?p'] exI [of _ ?t']) simp
qed

lemma verify_descends:
  assumes "hash32 H" "length key = HashSize" "length next' = HashSize" "depth \<le> urkelKeyBits"
  shows "verifyNodes H key (rev nodes) depth next' = Inr (length p, node_hash t) \<Longrightarrow> tree_at H p t \<Longrightarrow>
    prefix p (kbits key) \<Longrightarrow> (\<And>n. n \<in> set nodes \<Longrightarrow> bits_ok (pn_prefix n) \<and> length (pn_node n) = HashSize) \<Longrightarrow>
    collision_free H (preimages H t \<union> nodesPreimages H key (rev nodes) depth next') \<Longrightarrow>
    \<exists>p' t'. tree_at H p' t' \<and> prefix p' (kbits key) \<and> length p' = depth \<and> node_hash t' = next' \<and>
      umap t' key = umap t key \<and> preimages H t' \<subseteq> preimages H t"
proof (induction nodes arbitrary: p t)
  case Nil
  then show ?case by (intro exI [of _ p] exI [of _ t]) simp
next
  case (Cons n ns)
  obtain d1 h1 where v1: "verifyNodes H key (rev ns) depth next' = Inr (d1, h1)"
    and v2: "verifyNodes H key [n] d1 h1 = Inr (length p, node_hash t)"
    using Cons.prems(1) by (auto simp: verifyNodes_append result_simps simp del: verifyNodes.simps)
  have d1: "d1 \<le> urkelKeyBits" using verifyNodes_depth [OF v1] assms(4) by simp
  have l1: "length h1 = HashSize" by (rule verifyNodes_length [OF assms(1,3) v1])
  have s: "d1 = length p + ub_size (pn_prefix n) + 1" "bits_has (pn_prefix n) key (length p)"
    "node_hash t = blake2b256 H (stepPreimage key n d1 h1)"
    using v2 [unfolded verifyNodes_step [OF assms(2) d1]] by auto
  have pre: "nodesPreimages H key (rev (n # ns)) depth next' =
      nodesPreimages H key (rev ns) depth next' \<union> {stepPreimage key n d1 h1}"
    using nodesPreimages_append [OF assms(2,4) v1, of "[n]"] by simp
  obtain p1 t1 where t1: "tree_at H p1 t1" "prefix p1 (kbits key)" "length p1 = d1" "node_hash t1 = h1"
    "umap t1 key = umap t key" "preimages H t1 \<subseteq> preimages H t"
    using verify_one [OF assms(1,2) Cons.prems(2,3) _ _ l1 s(3,2,1) collision_free_subset [OF Cons.prems(5)]]
      Cons.prems(4) [of n] unfolding pre by auto
  have cf1: "collision_free H (preimages H t1 \<union> nodesPreimages H key (rev ns) depth next')"
    using t1(6) unfolding pre by (intro collision_free_subset [OF Cons.prems(5) [unfolded pre]]) auto
  obtain p' t' where "tree_at H p' t'" "prefix p' (kbits key)" "length p' = depth" "node_hash t' = next'"
    "umap t' key = umap t1 key" "preimages H t' \<subseteq> preimages H t1"
    using Cons.IH [of p1 t1] v1 t1(1-4) Cons.prems(4) cf1 by auto
  with t1(5,6) show ?case by (intro exI [of _ p'] exI [of _ t']) auto
qed

text \<open>Where a proof ends: the first hash is that of the node at the key's position, so the answer is
  the one this node gives.\<close>

lemma verifyStart_answer:
  assumes h: "hash32 H" and key: "length key = HashSize" and typed: "proof_typed pr"
    and start: "verifyStart H pr key = Inr (node_hash t)" and d: "up_depth pr = length p"
    and t: "tree_at H p t" "prefix p (kbits key)"
    and cf: "collision_free H (preimages H t \<union> startPreimages H pr key)"
  shows "finalAnswer pr = answer (umap t) key"
proof -
  have nz: "node_hash t \<noteq> zeroHash"
    using collision_free_nonzero [OF cf] by (simp add: node_hash_topPreimage [OF t(1)])
  have top: "topPreimage H t = x" if "node_hash t = blake2b256 H x" "x \<in> startPreimages H pr key" for x
    using that unfolding node_hash_topPreimage [OF t(1)]
    by (intro collision_freeD [OF cf, of "topPreimage H t" x]) simp_all
  consider "up_typ pr = urkelProofTypeShort" | "up_typ pr = urkelProofTypeCollision" | "up_typ pr = urkelProofTypeExists"
    using start nz by (auto simp: verifyStart_def split: if_split_asm)
  then show ?thesis
  proof cases
    case 1
    with start have s: "\<not> bits_has (up_prefix pr) key (length p)"
      "node_hash t = hashUrkelInternal H (up_prefix pr) (up_left pr) (up_right pr)"
      by (auto simp: verifyStart_def d result_simps split: if_split_asm)
    have "topPreimage H t = internalPreimage (up_prefix pr) (up_left pr) (up_right pr)"
      using s(2) 1 by (intro top) (simp_all add: hashUrkelInternal_def startPreimages_def)
    then obtain q l r hh where tt: "t = InternalNode q l r hh"
      and e: "internalPreimage q (node_hash l) (node_hash r) = internalPreimage (up_prefix pr) (up_left pr) (up_right pr)"
      by (cases t) simp_all
    have q: "bits_ok q" and "tree_at H (p @ ubits q @ [False]) l" using t(1) by (simp_all add: tt bits_canonD)
    then have "length (node_hash l) = HashSize" by (intro length_node_hash [OF h])
    then have "same_bits q (up_prefix pr)"
      using internalPreimage_inject [OF q _ _ _ e] typed by (simp add: proof_typed_def)
    then have "\<not> bits_has q key (length p)" using s(1) same_bits_ubits bits_has_iff by metis
    then have "umap t key = None" unfolding tt by (rule umap_other_side(1) [OF t(1) [unfolded tt] key t(2)])
    with 1 show ?thesis by (simp add: finalAnswer_def answer_def)
  next
    case 2
    with start have s: "up_key pr \<noteq> key" "node_hash t = hashUrkelLeaf H (up_key pr) (up_valueHash pr)"
      by (auto simp: verifyStart_def d result_simps split: if_split_asm)
    have "topPreimage H t = leafPreimage (up_key pr) (up_valueHash pr)"
      using s(2) 2 by (intro top) (simp_all add: hashUrkelLeaf_def startPreimages_def)
    then obtain k v hh where tt: "t = LeafNode k v hh" and "leafPreimage k (blake2b256 H v) = leafPreimage (up_key pr) (up_valueHash pr)"
      by (cases t) auto
    then have "k = up_key pr" using t(1) typed by (simp add: leafPreimage_inject proof_typed_def)
    with 2 s(1) show ?thesis by (simp add: finalAnswer_def answer_def tt)
  next
    case 3
    with start have s: "node_hash t = hashUrkelValue H key (up_value pr)"
      by (auto simp: verifyStart_def)
    have "topPreimage H t = leafPreimage key (blake2b256 H (up_value pr))"
      using s 3 by (intro top) (simp_all add: hashUrkelValue_def hashUrkelLeaf_def startPreimages_def)
    then obtain k v hh where tt: "t = LeafNode k v hh" and "leafPreimage k (blake2b256 H v) = leafPreimage key (blake2b256 H (up_value pr))"
      by (cases t) auto
    then have "k = key" "blake2b256 H v = blake2b256 H (up_value pr)"
      using t(1) key by (simp_all add: leafPreimage_inject)
    moreover from this have "v = up_value pr"
      using 3 by (intro collision_freeD [OF cf, of v "up_value pr"]) (simp_all add: tt startPreimages_def)
    ultimately show ?thesis using 3 by (simp add: finalAnswer_def answer_def tt)
  qed
qed

lemma verify_empty:
  assumes "length key = HashSize" "verifyStart H pr key = Inr n" "up_depth pr \<le> urkelKeyBits"
    and "verifyNodes H key (rev (up_nodes pr)) (up_depth pr) n = Inr (0, zeroHash)"
    and "collision_free H (proofPreimages H pr key)"
  shows "up_typ pr = urkelProofTypeDeadend"
proof (rule ccontr)
  assume ne: "up_typ pr \<noteq> urkelProofTypeDeadend"
  have cf: "collision_free H (startPreimages H pr key)"
    "collision_free H (nodesPreimages H key (rev (up_nodes pr)) (up_depth pr) n)"
    using assms(2,5) by (auto simp: proofPreimages_def elim: collision_free_subset)
  obtain x where x: "x \<in> startPreimages H pr key" "n = blake2b256 H x"
    using assms(2) ne
    by (auto simp: verifyStart_def startPreimages_def result_simps hashUrkelInternal_def hashUrkelLeaf_def
        hashUrkelValue_def split: if_split_asm)
  show False
  proof (cases "up_nodes pr")
    case Nil
    with assms(4) x collision_free_nonzero [OF cf(1)] show False by simp
  next
    case (Cons m ms)
    obtain d1 h1 where v: "verifyNodes H key (rev ms) (up_depth pr) n = Inr (d1, h1)" "verifyNodes H key [m] d1 h1 = Inr (0, zeroHash)"
      using assms(4) by (auto simp: Cons verifyNodes_append result_simps simp del: verifyNodes.simps)
    have d1: "d1 \<le> urkelKeyBits" using verifyNodes_depth [OF v(1)] assms(3) by simp
    have "blake2b256 H (stepPreimage key m d1 h1) = zeroHash"
      using v(2) [unfolded verifyNodes_step [OF assms(1) d1]] by simp
    moreover have "stepPreimage key m d1 h1 \<in> nodesPreimages H key (rev (up_nodes pr)) (up_depth pr) n"
      using nodesPreimages_append [OF assms(1,3) v(1), of "[m]"] by (simp add: Cons)
    ultimately show False using collision_free_nonzero [OF cf(2)] by simp
  qed
qed

text \<open>Soundness: if \<open>Verify\<close> accepts a proof against the root of a tree, its
  answer is the tree's: the value stored under the key with true, or false when the key is absent.
  The hypothesis is that BLAKE2b has no collision among the inputs hashed in the tree and in the
  check of the proof, and maps none of them to zero.\<close>

lemma urkel_proof_sound:
  assumes "hash32 H" "root_ok H root" "length key = HashSize" "proof_typed p"
    and "collision_free H (root_preimages H root \<union> proofPreimages H p key)"
    and "Verify H p (root_hash root) key = Inr a"
  shows "a = answer (contents root) key"
proof -
  obtain n where n: "verifyStart H p key = Inr n"
    "verifyNodes H key (rev (up_nodes p)) (up_depth p) n = Inr (0, root_hash root)"
    and sane: "up_depth p \<le> urkelKeyBits" and a: "a = finalAnswer p"
    using assms(6) by (auto simp: Verify_def result_simps isSane_def finalAnswer_def split: if_split_asm)
  have sub: "startPreimages H p key \<union> nodesPreimages H key (rev (up_nodes p)) (up_depth p) n \<subseteq> proofPreimages H p key"
    by (simp add: proofPreimages_def n(1))
  show ?thesis
  proof (cases root)
    case None
    have "up_typ p = urkelProofTypeDeadend"
      using n(2) verify_empty [OF assms(3) n(1) sane] collision_free_subset [OF assms(5)]
      by (simp add: None root_hash_def)
    then show ?thesis by (simp add: a None finalAnswer_def answer_def)
  next
    case (Some t)
    have t: "tree_at H [] t" "root_hash root = node_hash t" "root_preimages H root = preimages H t"
      using assms(2) by (simp_all add: Some root_hash_def root_preimages_def)
    have cf0: "collision_free H (preimages H t \<union> nodesPreimages H key (rev (up_nodes p)) (up_depth p) n)"
      using t sub by (intro collision_free_subset [OF assms(5)]) auto
    obtain p' t' where t': "tree_at H p' t'" "prefix p' (kbits key)" "length p' = up_depth p" "node_hash t' = n"
      "umap t' key = umap t key" "preimages H t' \<subseteq> preimages H t"
      using verify_descends [OF assms(1,3) verifyStart_length [OF assms(1) n(1)] sane, of "up_nodes p" "[]" t] n(2) t
        assms(4) cf0 by (auto simp: proof_typed_def)
    have cf: "collision_free H (preimages H t' \<union> startPreimages H p key)"
      using t' t sub by (intro collision_free_subset [OF assms(5)]) auto
    have "finalAnswer p = answer (umap t') key"
      using n(1) t' by (intro verifyStart_answer [OF assms(1,3,4) _ _ t'(1,2) cf]) simp_all
    then show ?thesis by (simp add: a Some answer_def t'(5))
  qed
qed

end
