(* ===== verification/Urkel_Codec.thy ===== *)
theory Urkel_Codec
  imports Urkel_Proof
begin

text \<open>
  The serialized form of name proofs (src/blockchain/urkel.go, \<open>Encode\<close>, \<open>DecodeUrkelProof\<close>,
  \<open>VerifyUrkelProof\<close>). The decoder's offset into the buffer is the rest of the input. The lemmas
  show that encoding never fails its size assertion, that decoding inverts it on every proof the
  tree produces, and lift completeness and soundness of proofs to their serialized form.
\<close>

section \<open>Prefixes\<close>

definition appendUrkelProofBits :: "urkelBits \<Rightarrow> bytes" where
  "appendUrkelProofBits bits =
     (if 0x80 \<le> ub_size bits then [0x80 OR of_nat (ub_size bits div 2 ^ 8)] else [])
     @ [of_nat (ub_size bits)] @ take (bits_byteSize bits) (ub_data bits)"

definition urkelProofBitsSize :: "urkelBits \<Rightarrow> nat" where
  "urkelProofBitsSize bits = 1 + bits_byteSize bits + (if 0x80 \<le> ub_size bits then 1 else 0)"

definition takeBytes :: "nat \<Rightarrow> string \<Rightarrow> bytes reader" where
  "takeBytes n e bs = (if length bs < n then Inl (OtherError e) else Inr (take n bs, drop n bs))"

definition readUrkelProofBits :: "urkelBits reader" where
  "readUrkelProofBits bs =
     rbind (takeBytes 1 ''urkel prefix length is truncated'' bs) (\<lambda>(b, bs).
     rbind (if hd b AND 0x80 \<noteq> 0 then
              rbind (takeBytes 1 ''urkel prefix length is truncated'' bs) (\<lambda>(c, bs).
                Inr (push_bit 8 (unat (hd b AND NOT 0x80)) OR unat (hd c), bs))
            else Inr (unat (hd b), bs)) (\<lambda>(size, bs).
     rbind (failIf (urkelKeyBits < size) (OtherError ''urkel prefix is too large'')) (\<lambda>_.
     rbind (takeBytes ((size + 7) div 8) ''urkel prefix data is truncated'' bs) (\<lambda>(d, bs).
     Inr (\<lparr>ub_size = size, ub_data = d @ replicate (HashSize - length d) 0\<rparr>, bs)))))"

section \<open>Proofs\<close>

definition urkelBitMap :: "urkelProofNode list \<Rightarrow> bytes" where
  "urkelBitMap nodes =
     fold (\<lambda>i d. if ub_size (pn_prefix (nodes ! i)) \<noteq> 0 then urkelSetBit d i else d)
       [0..<length nodes] (replicate ((length nodes + 7) div 8) 0)"

definition encodeNode :: "urkelProofNode \<Rightarrow> bytes" where
  "encodeNode node =
     (if ub_size (pn_prefix node) \<noteq> 0 then appendUrkelProofBits (pn_prefix node) else []) @ pn_node node"

definition encodeTail :: "UrkelProof \<Rightarrow> bytes" where
  "encodeTail p =
     (if up_typ p = urkelProofTypeShort then appendUrkelProofBits (up_prefix p) @ up_left p @ up_right p
      else if up_typ p = urkelProofTypeCollision then up_key p @ up_valueHash p
      else if up_typ p = urkelProofTypeExists then PutUint16 (of_nat (length (up_value p))) @ up_value p
      else [])"

definition nodeSize :: "urkelProofNode \<Rightarrow> nat" where
  "nodeSize node =
     (if ub_size (pn_prefix node) \<noteq> 0 then urkelProofBitsSize (pn_prefix node) else 0) + HashSize"

definition serializedSize :: "UrkelProof \<Rightarrow> nat" where
  "serializedSize p = 4 + (length (up_nodes p) + 7) div 8 + sum_list (map nodeSize (up_nodes p)) +
     (if up_typ p = urkelProofTypeShort then urkelProofBitsSize (up_prefix p) + HashSize * 2
      else if up_typ p = urkelProofTypeCollision then HashSize * 2
      else if up_typ p = urkelProofTypeExists then 2 + length (up_value p)
      else 0)"

definition Encode :: "UrkelProof \<Rightarrow> bytes result" where
  "Encode p =
     rbind (failIf (\<not> isSane p) (OtherError ''urkel proof is not sane'')) (\<lambda>_.
     let size = serializedSize p;
         field = (push_bit 14 (ucast (up_typ p)) OR of_nat (up_depth p) :: u16);
         out = PutUint16 field @ PutUint16 (of_nat (length (up_nodes p))) @ urkelBitMap (up_nodes p)
               @ concat (map encodeNode (up_nodes p)) @ encodeTail p
     in rbind (failIf (length out \<noteq> size) (AssertError ''urkel proof size mismatch'')) (\<lambda>_. Inr out))"

definition decodeNode :: "bool \<Rightarrow> urkelProofNode reader" where
  "decodeNode hasPrefix bs =
     rbind (if hasPrefix then
              rbind (readUrkelProofBits bs) (\<lambda>(pre, bs).
              rbind (failIf (ub_size pre = 0) (OtherError ''urkel proof node prefix is empty''))
                (\<lambda>_. Inr (pre, bs)))
            else Inr (emptyUrkelBits, bs)) (\<lambda>(pre, bs).
     rbind (takeBytes HashSize ''urkel proof node hash is truncated'' bs) (\<lambda>(h, bs).
     Inr (\<lparr>pn_prefix = pre, pn_node = h\<rparr>, bs)))"

fun decodeNodes :: "bytes \<Rightarrow> nat list \<Rightarrow> urkelProofNode list reader" where
  "decodeNodes bitMap [] bs = Inr ([], bs)"
| "decodeNodes bitMap (i # is) bs =
     rbind (urkelHasBit bitMap i) (\<lambda>b.
     rbind (decodeNode b bs) (\<lambda>(node, bs).
     rbind (decodeNodes bitMap is bs) (\<lambda>(nodes, bs). Inr (node # nodes, bs))))"

definition decodeTail :: "UrkelProof \<Rightarrow> UrkelProof reader" where
  "decodeTail p bs =
     (if up_typ p = urkelProofTypeDeadend then Inr (p, bs)
      else if up_typ p = urkelProofTypeShort then
        rbind (readUrkelProofBits bs) (\<lambda>(pre, bs).
        rbind (failIf (ub_size pre = 0) (OtherError ''urkel short proof prefix is empty'')) (\<lambda>_.
        rbind (takeBytes (HashSize * 2) ''urkel short proof is truncated'' bs) (\<lambda>(h, bs).
        Inr (p\<lparr>up_prefix := pre, up_left := take HashSize h, up_right := drop HashSize h\<rparr>, bs))))
      else if up_typ p = urkelProofTypeCollision then
        rbind (takeBytes (HashSize * 2) ''urkel collision proof is truncated'' bs) (\<lambda>(h, bs).
        Inr (p\<lparr>up_key := take HashSize h, up_valueHash := drop HashSize h\<rparr>, bs))
      else if up_typ p = urkelProofTypeExists then
        rbind (takeBytes 2 ''urkel exists proof value length is truncated'' bs) (\<lambda>(n, bs).
        rbind (takeBytes (unat (Uint16 n)) ''urkel exists proof value is truncated'' bs) (\<lambda>(v, bs).
        Inr (p\<lparr>up_value := v\<rparr>, bs)))
      else Inl (OtherError ''unknown urkel proof type''))"

definition DecodeUrkelProof :: "bytes \<Rightarrow> UrkelProof result" where
  "DecodeUrkelProof serialized =
     rbind (failIf (length serialized < 4) (OtherError ''urkel proof is truncated'')) (\<lambda>_.
     let field = Uint16 (take 2 serialized);
         typ = ucast (drop_bit 14 field); depth = unat (field AND NOT (push_bit 14 3));
         count = unat (Uint16 (take 2 (drop 2 serialized))); bs = drop 4 serialized
     in
     rbind (failIf (urkelKeyBits < depth) (OtherError ''urkel proof depth is too large'')) (\<lambda>_.
     rbind (failIf (urkelKeyBits < count) (OtherError ''urkel proof node count is too large'')) (\<lambda>_.
     rbind (takeBytes ((count + 7) div 8) ''urkel proof node bitmap is truncated'' bs) (\<lambda>(bitMap, bs).
     rbind (decodeNodes bitMap [0..<count] bs) (\<lambda>(nodes, bs).
     rbind (decodeTail (emptyUrkelProof\<lparr>up_typ := typ, up_depth := depth, up_nodes := nodes\<rparr>) bs) (\<lambda>(p, bs).
     rbind (failIf (bs \<noteq> []) (OtherError ''trailing urkel proof data'')) (\<lambda>_.
     rbind (failIf (\<not> isSane p) (OtherError ''urkel proof is not sane'')) (\<lambda>_. Inr p))))))))"

definition VerifyUrkelProof :: "hashers \<Rightarrow> hash \<Rightarrow> hash \<Rightarrow> bytes \<Rightarrow> (bytes \<times> bool) result" where
  "VerifyUrkelProof H root key serialized =
     rbind (DecodeUrkelProof serialized) (\<lambda>proof'. Verify H proof' root key)"

section \<open>Decoding inverts encoding\<close>

text \<open>A prefix as a decoder or \<open>slice\<close> leaves it: no data behind the bytes its bits occupy.\<close>

definition bits_packed :: "urkelBits \<Rightarrow> bool" where
  "bits_packed b \<longleftrightarrow> bits_ok b \<and> ub_data b =
     take (bits_byteSize b) (ub_data b) @ replicate (HashSize - bits_byteSize b) 0"

lemma takeBytes_append [simp]: "length a = n \<Longrightarrow> takeBytes n e (a @ r) = Inr (a, r)"
  by (simp add: takeBytes_def)

lemma takeBytes_append2 [simp]: "length a + length b = n \<Longrightarrow> takeBytes n e (a @ b @ r) = Inr (a @ b, r)"
  by (simp add: takeBytes_def)

lemma takeBytes_ok [result_simps]: "takeBytes n e bs = Inr (a, r) \<longleftrightarrow> bs = a @ r \<and> length a = n"
  by (auto simp: takeBytes_def not_less append_take_drop_id)

lemma takeBytes_one [simp]: "takeBytes (Suc 0) e (b # r) = Inr ([b], r)"
  by (simp add: takeBytes_def)

lemma bits_byteSize_le: "bits_ok b \<Longrightarrow> bits_byteSize b \<le> HashSize"
  by (auto simp: bits_ok_def bits_byteSize_def urkelKeyBits_def)

text \<open>The two-byte form of a size keeps its top bits in the first byte.\<close>

lemma size_bytes_small: "n < 128 \<Longrightarrow> (of_nat n :: byte) AND 0x80 = 0 \<and> unat (of_nat n :: byte) = n"
proof -
  have "\<forall>n\<in>set [0..<128]. (of_nat n :: byte) AND 0x80 = 0 \<and> unat (of_nat n :: byte) = n" by code_simp
  then show "n < 128 \<Longrightarrow> ?thesis" by simp
qed

lemma size_bytes_large:
  assumes "128 \<le> n" "n \<le> 256"
  shows "(0x80 OR of_nat (n div 2 ^ 8) :: byte) AND 0x80 \<noteq> 0"
    and "push_bit 8 (unat ((0x80 OR of_nat (n div 2 ^ 8) :: byte) AND NOT 0x80)) OR unat (of_nat n :: byte) = n"
proof -
  have "\<forall>n\<in>set [128..<257]. (0x80 OR of_nat (n div 2 ^ 8) :: byte) AND 0x80 \<noteq> 0 \<and>
      push_bit 8 (unat ((0x80 OR of_nat (n div 2 ^ 8) :: byte) AND NOT 0x80)) OR unat (of_nat n :: byte) = n"
    by code_simp
  moreover have "n \<in> set [128..<257]" unfolding set_upt using assms by simp
  ultimately show "(0x80 OR of_nat (n div 2 ^ 8) :: byte) AND 0x80 \<noteq> 0"
    and "push_bit 8 (unat ((0x80 OR of_nat (n div 2 ^ 8) :: byte) AND NOT 0x80)) OR unat (of_nat n :: byte) = n"
    by blast+
qed

lemma typ_depth_field:
  assumes "typ \<in> set [0, 1, 2, 3]" "depth \<le> 256"
  shows "ucast (drop_bit 14 (push_bit 14 (ucast typ) OR of_nat depth :: u16)) = (typ :: byte)"
    and "unat ((push_bit 14 (ucast typ) OR of_nat depth :: u16) AND NOT (push_bit 14 3)) = depth"
proof -
  have "\<forall>typ\<in>set [0, 1, 2, 3 :: byte]. ucast (drop_bit 14 (push_bit 14 (ucast typ) :: u16)) = typ \<and>
      (push_bit 14 (ucast typ) :: u16) AND NOT (push_bit 14 3) = 0" by code_simp
  then have t: "ucast (drop_bit 14 (push_bit 14 (ucast typ) :: u16)) = typ"
    "(push_bit 14 (ucast typ) :: u16) AND NOT (push_bit 14 3) = 0" using assms(1) by blast+
  have "\<forall>d\<in>set [0..<257]. drop_bit 14 (of_nat d :: u16) = 0 \<and> unat ((of_nat d :: u16) AND NOT (push_bit 14 3)) = d"
    by code_simp
  moreover have "depth \<in> set [0..<257]" unfolding set_upt using assms(2) by simp
  ultimately have d: "drop_bit 14 (of_nat depth :: u16) = 0" "unat ((of_nat depth :: u16) AND NOT (push_bit 14 3)) = depth"
    by blast+
  show "ucast (drop_bit 14 (push_bit 14 (ucast typ) OR of_nat depth :: u16)) = typ"
    unfolding drop_bit_or d(1) or.right_neutral by (rule t(1))
  show "unat ((push_bit 14 (ucast typ) OR of_nat depth :: u16) AND NOT (push_bit 14 3)) = depth"
    unfolding bit.conj_disj_distrib2 t(2) or.left_neutral by (rule d(2))
qed

lemma readUrkelProofBits_append:
  assumes "bits_packed b"
  shows "readUrkelProofBits (appendUrkelProofBits b @ r) = Inr (b, r)"
proof -
  let ?d = "take (bits_byteSize b) (ub_data b)"
  have ok: "ub_size b \<le> 256" "length ?d = bits_byteSize b"
    using assms bits_byteSize_le [of b] by (auto simp: bits_packed_def bits_ok_def urkelKeyBits_def)
  have b: "\<lparr>ub_size = ub_size b, ub_data = ?d @ replicate (HashSize - bits_byteSize b) 0\<rparr> = b"
    using assms unfolding bits_packed_def by simp
  have sz: "(ub_size b + 7) div 8 = bits_byteSize b" by (simp add: bits_byteSize_def)
  have rest: "takeBytes (bits_byteSize b) e (?d @ r) = Inr (?d, r)" for e using ok by simp
  show ?thesis
  proof (cases "128 \<le> ub_size b")
    case True
    with ok(1) size_bytes_large [of "ub_size b"] rest b ok(2) show ?thesis
      by (simp add: readUrkelProofBits_def appendUrkelProofBits_def urkelKeyBits_def sz)
  next
    case False
    with ok(1) size_bytes_small [of "ub_size b"] rest b ok(2) show ?thesis
      by (simp add: readUrkelProofBits_def appendUrkelProofBits_def urkelKeyBits_def sz)
  qed
qed

definition node_packed :: "urkelProofNode \<Rightarrow> bool" where
  "node_packed n \<longleftrightarrow> length (pn_node n) = HashSize \<and>
     (if ub_size (pn_prefix n) = 0 then pn_prefix n = emptyUrkelBits else bits_packed (pn_prefix n))"

text \<open>The fields a proof of the given type uses; the others are left zero.\<close>

definition proof_normal :: "UrkelProof \<Rightarrow> UrkelProof" where
  "proof_normal p =
     (let e = emptyUrkelProof\<lparr>up_typ := up_typ p, up_depth := up_depth p, up_nodes := up_nodes p\<rparr> in
      if up_typ p = urkelProofTypeShort then e\<lparr>up_prefix := up_prefix p, up_left := up_left p, up_right := up_right p\<rparr>
      else if up_typ p = urkelProofTypeCollision then e\<lparr>up_key := up_key p, up_valueHash := up_valueHash p\<rparr>
      else if up_typ p = urkelProofTypeExists then e\<lparr>up_value := up_value p\<rparr>
      else e)"

definition proof_packed :: "UrkelProof \<Rightarrow> bool" where
  "proof_packed p \<longleftrightarrow> isSane p \<and> (\<forall>n\<in>set (up_nodes p). node_packed n) \<and> p = proof_normal p \<and>
     length (up_left p) = HashSize \<and> length (up_right p) = HashSize \<and>
     length (up_key p) = HashSize \<and> length (up_valueHash p) = HashSize \<and>
     (up_typ p = urkelProofTypeShort \<longrightarrow> bits_packed (up_prefix p))"

lemma decodeNode_encodeNode:
  "node_packed n \<Longrightarrow> decodeNode (ub_size (pn_prefix n) \<noteq> 0) (encodeNode n @ r) = Inr (n, r)"
  by (simp add: node_packed_def decodeNode_def encodeNode_def readUrkelProofBits_append
      emptyUrkelBits_def split: if_split_asm)

lemma decodeNodes_encodeNodes:
  assumes "\<And>j. j < length ns \<Longrightarrow> urkelHasBit bm (i + j) = Inr (ub_size (pn_prefix (ns ! j)) \<noteq> 0)"
    and "\<And>n. n \<in> set ns \<Longrightarrow> node_packed n"
  shows "decodeNodes bm [i..<i + length ns] (concat (map encodeNode ns) @ r) = Inr (ns, r)"
  using assms
proof (induction ns arbitrary: i)
  case (Cons n ns)
  have "decodeNodes bm [Suc i..<Suc i + length ns] (concat (map encodeNode ns) @ r) = Inr (ns, r)"
  proof (rule Cons.IH)
    show "urkelHasBit bm (Suc i + j) = Inr (ub_size (pn_prefix (ns ! j)) \<noteq> 0)" if "j < length ns" for j
      using Cons.prems(1) [of "Suc j"] that by simp
  qed (simp add: Cons.prems(2))
  moreover have "urkelHasBit bm i = Inr (ub_size (pn_prefix n) \<noteq> 0)" using Cons.prems(1) [of 0] by simp
  moreover have "[i..<i + length (n # ns)] = i # [Suc i..<Suc i + length ns]" by (simp add: upt_rec)
  ultimately show ?case using Cons.prems(2) [of n] by (simp only: list.map concat.simps append_assoc
        decodeNodes.simps rbind_simps decodeNode_encodeNode prod.case list.set_intros(1))
qed simp

lemma urkelBitMap_ok:
  shows "length (urkelBitMap ns) = (length ns + 7) div 8"
    and "i < length ns \<Longrightarrow> urkelHasBit (urkelBitMap ns) i = Inr (ub_size (pn_prefix (ns ! i)) \<noteq> 0)"
proof -
  have l: "length ns \<le> 8 * length (replicate ((length ns + 7) div 8) (0 :: byte))" by simp
  show len: "length (urkelBitMap ns) = (length ns + 7) div 8"
    using setBits_fold(1) [OF l] by (simp add: urkelBitMap_def)
  have "urkelBit (replicate m 0) i = False" for m by (auto simp: urkelBit_def)
  then show "urkelHasBit (urkelBitMap ns) i = Inr (ub_size (pn_prefix (ns ! i)) \<noteq> 0)" if "i < length ns"
    using that l len setBits_fold(2) [OF l, of "\<lambda>i. ub_size (pn_prefix (ns ! i)) \<noteq> 0" i]
    by (simp add: urkelHasBit_def urkelBitMap_def)
qed

lemma decodeTail_encodeTail:
  assumes "proof_packed p"
  shows "decodeTail (emptyUrkelProof\<lparr>up_typ := up_typ p, up_depth := up_depth p, up_nodes := up_nodes p\<rparr>)
    (encodeTail p @ r) = Inr (p, r)"
proof -
  have n: "p = proof_normal p" and sane: "isSane p"
    and l: "length (up_left p) = HashSize" "length (up_right p) = HashSize" "length (up_key p) = HashSize"
      "length (up_valueHash p) = HashSize" and b: "up_typ p = 1 \<Longrightarrow> bits_packed (up_prefix p)"
    using assms by (simp_all add: proof_packed_def)
  have u: "unat (of_nat (length (up_value p)) :: u16) = length (up_value p)" if "up_typ p = 3"
    using sane that by (simp add: isSane_def maxUrkelProofValue_def unat_of_nat)
  have "up_typ p \<in> {0, 1, 2, 3}" using sane by (auto simp: isSane_def split: if_split_asm)
  then consider "up_typ p = 0" | "up_typ p = 1" | "up_typ p = 2" | "up_typ p = 3" by auto
  then show ?thesis
  proof cases
    case 1
    with n show ?thesis by (simp add: decodeTail_def encodeTail_def proof_normal_def emptyUrkelProof_def)
  next
    case 2
    then have "0 < ub_size (up_prefix p)" using sane by (simp add: isSane_def)
    with 2 n l b show ?thesis
      by (simp add: decodeTail_def encodeTail_def proof_normal_def readUrkelProofBits_append eq_commute [of _ p])
  next
    case 3
    with n l show ?thesis by (simp add: decodeTail_def encodeTail_def proof_normal_def emptyUrkelProof_def)
  next
    case 4
    with n u show ?thesis
      by (simp add: decodeTail_def encodeTail_def proof_normal_def emptyUrkelProof_def)
  qed
qed

lemma length_appendUrkelProofBits: "bits_ok b \<Longrightarrow> length (appendUrkelProofBits b) = urkelProofBitsSize b"
  using bits_byteSize_le [of b] by (simp add: appendUrkelProofBits_def urkelProofBitsSize_def bits_ok_def)

lemma node_packed_typed: "node_packed n \<Longrightarrow> bits_ok (pn_prefix n) \<and> length (pn_node n) = HashSize"
  by (auto simp: node_packed_def bits_packed_def bits_ok_def emptyUrkelBits_def split: if_split_asm)

lemma length_encodeNodes:
  "\<forall>n\<in>set ns. node_packed n \<Longrightarrow> length (concat (map encodeNode ns)) = sum_list (map nodeSize ns)"
proof (induction ns)
  case (Cons n ns)
  then show ?case
    using node_packed_typed [of n] by (simp add: encodeNode_def nodeSize_def length_appendUrkelProofBits)
qed simp

lemma Encode_ok:
  assumes "proof_packed p"
  shows "Encode p = Inr (PutUint16 (push_bit 14 (ucast (up_typ p)) OR of_nat (up_depth p))
    @ PutUint16 (of_nat (length (up_nodes p))) @ urkelBitMap (up_nodes p)
    @ concat (map encodeNode (up_nodes p)) @ encodeTail p)"
proof -
  let ?out = "PutUint16 (push_bit 14 (ucast (up_typ p)) OR of_nat (up_depth p))
    @ PutUint16 (of_nat (length (up_nodes p))) @ urkelBitMap (up_nodes p)
    @ concat (map encodeNode (up_nodes p)) @ encodeTail p"
  have "length ?out = serializedSize p"
    using assms length_appendUrkelProofBits [of "up_prefix p"] length_encodeNodes [of "up_nodes p"]
    by (simp add: encodeTail_def serializedSize_def proof_packed_def bits_packed_def urkelBitMap_ok(1))
  moreover have "isSane p" using assms by (simp add: proof_packed_def)
  ultimately show ?thesis by (simp only: Encode_def Let_def failIf_simps not_True_eq_False rbind_simps simp_thms)
qed

lemma Decode_Encode:
  assumes "proof_packed p" "Encode p = Inr bs"
  shows "DecodeUrkelProof bs = Inr p"
proof -
  let ?n = "length (up_nodes p)"
  have sane: "isSane p" using assms(1) by (simp add: proof_packed_def)
  then have sz: "up_depth p \<le> 256" "?n \<le> 256" by (simp_all add: isSane_def urkelKeyBits_def)
  have ty: "up_typ p \<in> set [0, 1, 2, 3]" using sane by (auto simp: isSane_def split: if_split_asm)
  define field where "field = (push_bit 14 (ucast (up_typ p)) OR of_nat (up_depth p) :: u16)"
  note f = typ_depth_field [OF ty sz(1), folded field_def]
  have bs: "bs = PutUint16 field @ PutUint16 (of_nat ?n)
      @ urkelBitMap (up_nodes p) @ concat (map encodeNode (up_nodes p)) @ encodeTail p"
    using assms Encode_ok by (auto simp: field_def)
  have n: "unat (of_nat ?n :: u16) = ?n" using sz(2) by (simp add: unat_of_nat)
  have nodes: "decodeNodes (urkelBitMap (up_nodes p)) [0..<?n] (concat (map encodeNode (up_nodes p)) @ r) = Inr (up_nodes p, r)" for r
    using decodeNodes_encodeNodes [of "up_nodes p" "urkelBitMap (up_nodes p)" 0] assms(1)
    by (simp add: urkelBitMap_ok(2) proof_packed_def)
  show ?thesis
    using f nodes sane sz decodeTail_encodeTail [OF assms(1), of "[]"] urkelBitMap_ok(1) [of "up_nodes p"]
    unfolding DecodeUrkelProof_def bs by (simp add: n urkelKeyBits_def Let_def)
qed

section \<open>The proofs the tree produces\<close>

lemma bits_canon_packed:
  assumes "bits_canon b"
  shows "bits_packed b"
proof -
  let ?n = "bits_byteSize b"
  have l: "length (ub_data b) = HashSize" using assms by (simp add: bits_canon_def bits_ok_def)
  have "drop ?n (ub_data b) ! j = 0" if j: "j < HashSize - ?n" for j
  proof (rule byte_eqI)
    fix c :: nat assume c: "c < 8"
    have "ub_size b \<le> 8 * (?n + j) + c" "8 * (?n + j) + c < urkelKeyBits"
      using j c by (simp_all add: bits_byteSize_def urkelKeyBits_def)
    then have "\<not> urkelBit (ub_data b) (8 * (?n + j) + c)"
      using assms by (simp add: bits_canon_def bits_get_def)
    then show "bit (drop ?n (ub_data b) ! j) (7 - c) = bit (0 :: byte) (7 - c)"
      using urkelBit_bit [of "?n + j" "ub_data b" c] j c l by simp
  qed
  then have "drop ?n (ub_data b) = replicate (HashSize - ?n) 0" using l by (intro nth_equalityI) auto
  then show ?thesis
    using assms append_take_drop_id [of ?n "ub_data b"] by (simp only: bits_packed_def bits_canon_def)
qed

lemma node_packed_canon:
  "bits_canon q \<Longrightarrow> length h = HashSize \<Longrightarrow> node_packed \<lparr>pn_prefix = q, pn_node = h\<rparr>"
proof -
  assume q: "bits_canon q" and h: "length h = HashSize"
  have "q = emptyUrkelBits" if "ub_size q = 0"
  proof (rule bits_canon_inject [OF q])
    show "bits_canon emptyUrkelBits" "ubits q = ubits emptyUrkelBits"
      using that by (simp_all add: bits_canon_def bits_ok_def emptyUrkelBits_def bits_get_def ubits_def)
  qed
  with q h show ?thesis by (simp add: node_packed_def bits_canon_packed)
qed

definition fields_packed :: "UrkelProof \<Rightarrow> bool" where
  "fields_packed p \<longleftrightarrow> (\<forall>n\<in>set (up_nodes p). node_packed n) \<and> p = proof_normal p \<and>
     length (up_left p) = HashSize \<and> length (up_right p) = HashSize \<and>
     length (up_key p) = HashSize \<and> length (up_valueHash p) = HashSize \<and>
     (up_typ p = urkelProofTypeShort \<longrightarrow> bits_packed (up_prefix p))"

lemma proveNode_packed:
  assumes "hash32 H"
  shows "tree_at H q t \<Longrightarrow> \<forall>n\<in>set ns. node_packed n \<Longrightarrow>
    proveNode H t key (emptyUrkelProof\<lparr>up_nodes := ns\<rparr>) d = Inr p \<Longrightarrow> fields_packed p"
proof (induction t arbitrary: q ns d)
  case (LeafNode k v h)
  then show ?case
    using assms by (auto simp: fields_packed_def proof_normal_def emptyUrkelProof_def split: if_split_asm)
next
  case (InternalNode pre l r h)
  have t: "bits_canon pre" "tree_at H (q @ ubits pre @ [False]) l" "tree_at H (q @ ubits pre @ [True]) r"
    using InternalNode.prems(1) by simp_all
  have hs: "length (node_hash l) = HashSize" "length (node_hash r) = HashSize"
    by (rule length_node_hash [OF assms t(2)], rule length_node_hash [OF assms t(3)])
  show ?case
  proof (cases "bits_has pre key d")
    case False
    with InternalNode.prems(2,3) hs bits_canon_packed [OF t(1)] show ?thesis
      by (auto simp: fields_packed_def proof_normal_def emptyUrkelProof_def)
  next
    case True
    then obtain b where "proveNode H (if b then r else l) key
        (emptyUrkelProof\<lparr>up_nodes := ns @ [\<lparr>pn_prefix = pre, pn_node = node_hash (if b then l else r)\<rparr>]\<rparr>)
        (d + ub_size pre + 1) = Inr p"
      using InternalNode.prems(3) by (auto simp: result_simps emptyUrkelProof_def split: if_split_asm) force+
    moreover have "\<forall>n\<in>set (ns @ [\<lparr>pn_prefix = pre, pn_node = node_hash (if b then l else r)\<rparr>]). node_packed n"
      using InternalNode.prems(2) node_packed_canon [OF t(1)] hs by (cases b) auto
    ultimately show ?thesis
    proof (cases b)
      case True
      assume "proveNode H (if b then r else l) key
          (emptyUrkelProof\<lparr>up_nodes := ns @ [\<lparr>pn_prefix = pre, pn_node = node_hash (if b then l else r)\<rparr>]\<rparr>)
          (d + ub_size pre + 1) = Inr p"
        and "\<forall>n\<in>set (ns @ [\<lparr>pn_prefix = pre, pn_node = node_hash (if b then l else r)\<rparr>]). node_packed n"
      with True show ?thesis by (intro InternalNode.IH(2) [OF t(3)]) simp_all
    qed (intro InternalNode.IH(1) [OF t(2)], simp_all)
  qed
qed

lemma proveUrkel_packed:
  assumes "hash32 H" "root_ok H root" "proveUrkel H root key = Inr p"
  shows "fields_packed p"
proof (cases root)
  case None
  with assms(3) show ?thesis by (auto simp: proveUrkel_def fields_packed_def proof_normal_def emptyUrkelProof_def)
next
  case (Some t)
  have "emptyUrkelProof\<lparr>up_nodes := []\<rparr> = emptyUrkelProof" by (simp add: emptyUrkelProof_def)
  with assms Some proveNode_packed [OF assms(1), of "[]" t "[]" key 0 p] show ?thesis
    by (simp add: proveUrkel_def)
qed

section \<open>Properties\<close>

definition values_ok :: "urkelNode option \<Rightarrow> bool" where
  "values_ok root \<longleftrightarrow> (\<forall>v\<in>ran (contents root). v \<noteq> [] \<and> length v \<le> maxUrkelProofValue)"

text \<open>C5: Completeness of served name proofs. For every well-formed name tree whose values are
  non-empty and at most 65535 bytes and every 32-byte key, a proof is produced and serialized
  without an error or panic, and \<open>VerifyUrkelProof\<close> accepts the serialized bytes against the root
  with the right answer: the stored value and true, or no value and false for an absent key.\<close>

theorem urkel_served_proof_verifies:
  assumes "hash32 H" "root_ok H root" "values_ok root" "length key = HashSize"
  shows "\<exists>p bs. proveUrkel H root key = Inr p \<and> Encode p = Inr bs \<and>
    VerifyUrkelProof H (root_hash root) key bs = Inr (answer (contents root) key)"
proof -
  obtain p where p: "proveUrkel H root key = Inr p"
    "Verify H p (root_hash root) key = Inr (answer (contents root) key)"
    using urkel_proof_complete assms(2-4) unfolding values_ok_def by blast
  then have "isSane p" by (auto simp: Verify_def result_simps)
  then have packed: "proof_packed p"
    using proveUrkel_packed [OF assms(1,2) p(1)] by (simp add: proof_packed_def fields_packed_def)
  then obtain bs where bs: "Encode p = Inr bs" using Encode_ok by blast
  have "VerifyUrkelProof H (root_hash root) key bs = Inr (answer (contents root) key)"
    using Decode_Encode [OF packed bs] p(2) by (simp add: VerifyUrkelProof_def)
  with p(1) bs show ?thesis by blast
qed

definition ex_absent :: hash where "ex_absent = 64 # replicate 31 0"

lemma ex_tree_props: "root_ok ex_hashes ex_tree \<and> contents ex_tree = map_of [(ex_key1, [4]), (ex_key2, [5])]"
proof -
  have "length ex_key1 = HashSize" "length ex_key2 = HashSize" "ex_key1 \<noteq> ex_key2" by code_simp+
  then have "\<exists>root. buildUrkelTree ex_hashes [(ex_key1, [4]), (ex_key2, [5])] = Inr root \<and> root_ok ex_hashes root \<and>
      contents root = map_of [(ex_key1, [4]), (ex_key2, [5])]"
    by (intro buildUrkelTree_ok) auto
  then show ?thesis by (auto simp only: ex_tree_def sum.sel)
qed

lemmas ex_tree_ok = ex_tree_props [THEN conjunct1]

lemma ex_tree_values: "values_ok ex_tree"
  unfolding values_ok_def ex_tree_props [THEN conjunct2]
  by (auto simp: ran_def maxUrkelProofValue_def split: if_split_asm)

theorem urkel_served_proof_verifies_witness:
  "\<exists>p bs. proveUrkel ex_hashes ex_tree ex_absent = Inr p \<and> Encode p = Inr bs \<and>
    VerifyUrkelProof ex_hashes (root_hash ex_tree) ex_absent bs = Inr (answer (contents ex_tree) ex_absent)"
  by (intro urkel_served_proof_verifies ex_tree_ok ex_tree_values hash32_ex_hashes) (simp add: ex_absent_def)

lemma readUrkelProofBits_typed: "readUrkelProofBits bs = Inr (b, r) \<Longrightarrow> bits_ok b"
  by (auto simp: readUrkelProofBits_def result_simps bits_ok_def urkelKeyBits_def split: if_split_asm)

lemma decodeNode_typed: "decodeNode hp bs = Inr (n, r) \<Longrightarrow> bits_ok (pn_prefix n) \<and> length (pn_node n) = HashSize"
  by (auto simp: decodeNode_def result_simps bits_ok_def emptyUrkelBits_def split: if_split_asm
      dest!: readUrkelProofBits_typed)

lemma decodeNodes_typed:
  "decodeNodes bm is bs = Inr (ns, r) \<Longrightarrow> n \<in> set ns \<Longrightarrow> bits_ok (pn_prefix n) \<and> length (pn_node n) = HashSize"
proof (induction bm "is" bs arbitrary: ns rule: decodeNodes.induct)
  case (2 bm i "is" bs)
  then show ?case by (auto simp: result_simps dest: decodeNode_typed [simplified])
qed simp

lemma decodeTail_typed: "decodeTail p bs = Inr (p', r) \<Longrightarrow> proof_typed p \<Longrightarrow> proof_typed p'"
  by (auto simp: decodeTail_def result_simps proof_typed_def split: if_split_asm dest!: readUrkelProofBits_typed)

lemma Decode_typed:
  assumes "DecodeUrkelProof bs = Inr p"
  shows "proof_typed p"
proof -
  obtain bm "is" ns bs' ty d r r' where n: "decodeNodes bm is bs' = Inr (ns, r)"
    and t: "decodeTail (emptyUrkelProof\<lparr>up_typ := ty, up_depth := d, up_nodes := ns\<rparr>) r = Inr (p, r')"
    using assms by (auto simp: DecodeUrkelProof_def Let_def result_simps)
  have "proof_typed (emptyUrkelProof\<lparr>up_typ := ty, up_depth := d, up_nodes := ns\<rparr>)"
    using decodeNodes_typed [OF n] by (simp add: proof_typed_def emptyUrkelProof_def bits_ok_def emptyUrkelBits_def)
  then show ?thesis by (rule decodeTail_typed [OF t])
qed

text \<open>C4: Soundness of name proofs. Whatever bytes a peer sends, if \<open>VerifyUrkelProof\<close> accepts them
  against the root of a name tree then the answer is the tree's: the value stored under the key
  with true, or false when the key is absent. The hypothesis is that BLAKE2b has no collision among
  the inputs hashed in the tree and in the check of the proof, and maps none of them to zero.\<close>

theorem urkel_accepted_proof_sound:
  assumes "hash32 H" "root_ok H root" "length key = HashSize"
    and "DecodeUrkelProof bs = Inr p" "collision_free H (root_preimages H root \<union> proofPreimages H p key)"
    and "VerifyUrkelProof H (root_hash root) key bs = Inr a"
  shows "a = answer (contents root) key"
  using urkel_proof_sound [OF assms(1-3) Decode_typed [OF assms(4)] assms(5)] assms(4,6)
  by (simp add: VerifyUrkelProof_def)

definition ex_proof :: UrkelProof where
  "ex_proof = projr (proveUrkel ex_hashes ex_tree ex_absent)"

definition ex_served :: bytes where "ex_served = projr (Encode ex_proof)"

theorem urkel_accepted_proof_sound_witness:
  "VerifyUrkelProof ex_hashes (root_hash ex_tree) ex_absent ex_served = Inr ([], False) \<and>
   ([], False) = answer (contents ex_tree) ex_absent"
proof -
  have pr: "proveUrkel ex_hashes ex_tree ex_absent = Inr ex_proof"
    and v0: "Verify ex_hashes ex_proof (root_hash ex_tree) ex_absent = Inr ([], False)" by code_simp+
  then have packed: "proof_packed ex_proof"
    using proveUrkel_packed [OF hash32_ex_hashes ex_tree_ok pr]
    by (auto simp: proof_packed_def fields_packed_def Verify_def result_simps)
  then have "Encode ex_proof = Inr ex_served" using Encode_ok by (auto simp: ex_served_def)
  then have d: "DecodeUrkelProof ex_served = Inr ex_proof" by (rule Decode_Encode [OF packed])
  then have v: "VerifyUrkelProof ex_hashes (root_hash ex_tree) ex_absent ex_served = Inr ([], False)"
    using v0 by (simp add: VerifyUrkelProof_def)
  have "let xs = preimage_list ex_hashes (the ex_tree) in
      distinct (map (blake2b256 ex_hashes) xs) \<and> zeroHash \<notin> set (map (blake2b256 ex_hashes) xs)"
    by code_simp
  moreover have "proofPreimages ex_hashes ex_proof ex_absent \<subseteq> set (preimage_list ex_hashes (the ex_tree))"
    by code_simp
  ultimately have "collision_free ex_hashes (root_preimages ex_hashes ex_tree \<union> proofPreimages ex_hashes ex_proof ex_absent)"
    by (intro collision_free_list [of ex_hashes "preimage_list ex_hashes (the ex_tree)"])
      (simp_all add: Let_def root_preimages_list)
  from urkel_accepted_proof_sound [OF hash32_ex_hashes ex_tree_ok _ d this v] v show ?thesis
    by (simp add: ex_absent_def)
qed

end
