(* ===== verification/Urkel_Root.thy ===== *)
theory Urkel_Root
  imports Urkel_Tree
begin

text \<open>
  The compact mutable name tree of src/blockchain/urkelroot.go, which maintains the current root:
  nodes live in two chunked arrays and refer to each other by 32-bit references whose top bit tells
  leaves from internal nodes; an internal node keeps only the length of its prefix and finds the
  bits in the key of a representative leaf. Operations return a result with the tree as it is
  left, also on an error. The chunked array is an implementation of a growable array; the tree is
  shown to implement insertion into the immutable tree of \<open>Urkel_Tree\<close>, so that its root hash is
  the one \<open>calcUrkelRoot\<close> defines.
\<close>

section \<open>Growable arrays\<close>

record 'a urkelRootStore =
  st_chunks :: "'a list list"
  st_count :: nat

definition urkelRootChunkSize :: nat where "urkelRootChunkSize = 2 ^ 16"

definition store_get :: "'a urkelRootStore \<Rightarrow> int \<Rightarrow> 'a result" where
  "store_get s index =
     (let c = nat index div urkelRootChunkSize; o' = nat index mod urkelRootChunkSize in
      if index < 0 \<or> length (st_chunks s) \<le> c \<or> length (st_chunks s ! c) \<le> o'
      then Inl (Panic ''index out of range'') else Inr (st_chunks s ! c ! o'))"

definition store_set :: "'a urkelRootStore \<Rightarrow> int \<Rightarrow> 'a \<Rightarrow> 'a urkelRootStore result" where
  "store_set s index v =
     (let c = nat index div urkelRootChunkSize; o' = nat index mod urkelRootChunkSize in
      if index < 0 \<or> length (st_chunks s) \<le> c \<or> length (st_chunks s ! c) \<le> o'
      then Inl (Panic ''index out of range'')
      else Inr (s\<lparr>st_chunks := (st_chunks s)[c := (st_chunks s ! c)[o' := v]]\<rparr>))"

definition store_append :: "'a \<Rightarrow> 'a urkelRootStore \<Rightarrow> 'a \<Rightarrow> 'a urkelRootStore result" where
  "store_append zero s v =
     (let index = st_count s; chunkIndex = index div urkelRootChunkSize;
          s = (if chunkIndex = length (st_chunks s)
               then s\<lparr>st_chunks := st_chunks s @ [replicate urkelRootChunkSize zero]\<rparr> else s)
      in rbind (store_set s (int index) v) (\<lambda>s. Inr (s\<lparr>st_count := st_count s + 1\<rparr>)))"

definition store_reset :: "'a urkelRootStore \<Rightarrow> 'a urkelRootStore" where
  "store_reset s = s\<lparr>st_count := 0\<rparr>"

text \<open>What the tree relies on: an array of which only the elements below the count are used.\<close>

locale growable_array =
  fixes get :: "'s \<Rightarrow> int \<Rightarrow> 'a result" and set' :: "'s \<Rightarrow> int \<Rightarrow> 'a \<Rightarrow> 's result"
    and append' :: "'s \<Rightarrow> 'a \<Rightarrow> 's result" and inv :: "'s \<Rightarrow> bool" and elems :: "'s \<Rightarrow> 'a list"
  assumes get_elems: "inv s \<Longrightarrow> i < length (elems s) \<Longrightarrow> get s (int i) = Inr (elems s ! i)"
    and set_elems: "inv s \<Longrightarrow> i < length (elems s) \<Longrightarrow>
      \<exists>s'. set' s (int i) v = Inr s' \<and> inv s' \<and> elems s' = (elems s)[i := v]"
    and append_elems: "inv s \<Longrightarrow> \<exists>s'. append' s v = Inr s' \<and> inv s' \<and> elems s' = elems s @ [v]"
begin

lemma get_after_append:
  assumes "inv s" "append' s v = Inr s'" "i \<le> length (elems s)"
  shows "get s' (int i) = Inr (if i = length (elems s) then v else elems s ! i)"
proof -
  have "inv s'" "elems s' = elems s @ [v]" using append_elems [OF assms(1), of v] assms(2) by auto
  then show ?thesis using get_elems [of s' i] assms(3) by (simp add: nth_append)
qed

lemma get_after_set:
  assumes "inv s" "set' s (int i) v = Inr s'" "i < length (elems s)" "j < length (elems s)"
  shows "get s' (int j) = Inr (if j = i then v else elems s ! j)"
proof -
  have "inv s'" "elems s' = (elems s)[i := v]" using set_elems [OF assms(1,3), of v] assms(2) by auto
  then show ?thesis using get_elems [of s' j] assms(3,4) by (simp add: nth_list_update)
qed

end

definition store_ok :: "'a urkelRootStore \<Rightarrow> bool" where
  "store_ok s \<longleftrightarrow> (\<forall>c\<in>set (st_chunks s). length c = urkelRootChunkSize) \<and>
     st_count s \<le> urkelRootChunkSize * length (st_chunks s)"

definition elements :: "'a urkelRootStore \<Rightarrow> 'a list" where
  "elements s = take (st_count s) (concat (st_chunks s))"

lemma urkelRootChunkSize_pos [simp]: "0 < urkelRootChunkSize"
  by (simp add: urkelRootChunkSize_def)

lemma length_concat_chunks: "\<forall>c\<in>set cs. length c = n \<Longrightarrow> length (concat cs) = n * length cs"
  by (induction cs) auto

lemma nth_concat_chunks:
  "\<forall>c\<in>set cs. length c = n \<Longrightarrow> i < n * length cs \<Longrightarrow> concat cs ! i = cs ! (i div n) ! (i mod n)"
proof (induction cs arbitrary: i)
  case (Cons c cs)
  show ?case
  proof (cases "i < n")
    case True
    with Cons.prems show ?thesis by (simp add: nth_append)
  next
    case False
    then have "0 < n" using Cons.prems(2) by (cases n) auto
    with False have "i div n = Suc ((i - n) div n)" "i mod n = (i - n) mod n"
      by (simp_all add: le_div_geq le_mod_geq)
    with Cons False show ?thesis by (simp add: nth_append)
  qed
qed simp

lemma concat_update:
  "\<forall>c\<in>set cs. length c = n \<Longrightarrow> i < n * length cs \<Longrightarrow>
     concat (cs[i div n := (cs ! (i div n))[i mod n := v]]) = (concat cs)[i := v]"
proof (induction cs arbitrary: i)
  case (Cons c cs)
  show ?case
  proof (cases "i < n")
    case True
    with Cons.prems show ?thesis by (simp add: list_update_append)
  next
    case False
    then have "0 < n" using Cons.prems(2) by (cases n) auto
    with False have "i div n = Suc ((i - n) div n)" "i mod n = (i - n) mod n"
      by (simp_all add: le_div_geq le_mod_geq)
    with Cons False show ?thesis by (simp add: list_update_append)
  qed
qed simp

lemma length_elements: "store_ok s \<Longrightarrow> length (elements s) = st_count s"
  using length_concat_chunks [of "st_chunks s" urkelRootChunkSize] by (simp add: store_ok_def elements_def)

lemma chunk_bounds:
  assumes "\<forall>c\<in>set cs. length c = urkelRootChunkSize" "i < urkelRootChunkSize * length cs"
  shows "i div urkelRootChunkSize < length cs" "i mod urkelRootChunkSize < length (cs ! (i div urkelRootChunkSize))"
proof -
  show a: "i div urkelRootChunkSize < length cs" using assms(2) by (simp add: less_mult_imp_div_less mult.commute)
  then show "i mod urkelRootChunkSize < length (cs ! (i div urkelRootChunkSize))" using assms(1) by simp
qed

lemma store_get_elements:
  assumes "store_ok s" "i < length (elements s)"
  shows "store_get s (int i) = Inr (elements s ! i)"
proof -
  have i: "i < st_count s" "i < urkelRootChunkSize * length (st_chunks s)"
    using assms length_elements [of s] by (auto simp: store_ok_def)
  have ok: "\<forall>c\<in>set (st_chunks s). length c = urkelRootChunkSize" using assms(1) by (simp add: store_ok_def)
  have "elements s ! i = st_chunks s ! (i div urkelRootChunkSize) ! (i mod urkelRootChunkSize)"
    using i by (simp add: elements_def nth_concat_chunks [OF ok])
  with chunk_bounds [OF ok i(2)] show ?thesis by (simp add: store_get_def Let_def not_le)
qed

lemma store_set_chunks:
  assumes ok: "\<forall>c\<in>set (st_chunks s). length c = urkelRootChunkSize"
    and i: "i < urkelRootChunkSize * length (st_chunks s)"
  shows "\<exists>s'. store_set s (int i) v = Inr s' \<and> (\<forall>c\<in>set (st_chunks s'). length c = urkelRootChunkSize) \<and>
    st_count s' = st_count s \<and> length (st_chunks s') = length (st_chunks s) \<and>
    concat (st_chunks s') = (concat (st_chunks s))[i := v]"
proof -
  let ?c = "i div urkelRootChunkSize" and ?o = "i mod urkelRootChunkSize"
  let ?s = "s\<lparr>st_chunks := (st_chunks s)[?c := (st_chunks s ! ?c)[?o := v]]\<rparr>"
  have "store_set s (int i) v = Inr ?s"
    using chunk_bounds [OF ok i] by (simp add: store_set_def Let_def not_le)
  moreover have "\<forall>c\<in>set (st_chunks ?s). length c = urkelRootChunkSize"
    using ok chunk_bounds(1) [OF ok i] by (auto dest!: set_update_subset_insert [THEN subsetD])
  ultimately show ?thesis using concat_update [OF ok i] by simp
qed

lemma store_set_elements:
  assumes "store_ok s" "i < length (elements s)"
  shows "\<exists>s'. store_set s (int i) v = Inr s' \<and> store_ok s' \<and> elements s' = (elements s)[i := v]"
proof -
  have "i < urkelRootChunkSize * length (st_chunks s)" "\<forall>c\<in>set (st_chunks s). length c = urkelRootChunkSize"
    using assms length_elements [of s] by (auto simp: store_ok_def)
  from store_set_chunks [OF this(2,1), of v] assms(1) show ?thesis
    by (auto simp: store_ok_def elements_def take_update_swap)
qed

lemma take_Suc_update: "n < length xs \<Longrightarrow> take (Suc n) (xs[n := v]) = take n xs @ [v]"
  by (simp add: take_Suc_conv_app_nth)

lemma store_append_elements:
  assumes "store_ok s"
  shows "\<exists>s'. store_append zero s v = Inr s' \<and> store_ok s' \<and> elements s' = elements s @ [v]"
proof -
  let ?s = "if st_count s div urkelRootChunkSize = length (st_chunks s)
    then s\<lparr>st_chunks := st_chunks s @ [replicate urkelRootChunkSize zero]\<rparr> else s"
  have ok: "\<forall>c\<in>set (st_chunks ?s). length c = urkelRootChunkSize" using assms by (auto simp: store_ok_def)
  have "st_count s \<le> urkelRootChunkSize * length (st_chunks s)" using assms by (simp add: store_ok_def)
  then have i: "st_count s < urkelRootChunkSize * length (st_chunks ?s)"
    by (cases "st_count s = urkelRootChunkSize * length (st_chunks s)") auto
  obtain s' where s': "store_set ?s (int (st_count s)) v = Inr s'" "\<forall>c\<in>set (st_chunks s'). length c = urkelRootChunkSize"
    "st_count s' = st_count s" "length (st_chunks s') = length (st_chunks ?s)"
    "concat (st_chunks s') = (concat (st_chunks ?s))[st_count s := v]"
    using store_set_chunks [OF ok i, of v] by auto
  have l: "st_count s < length (concat (st_chunks ?s))" using i length_concat_chunks [OF ok] by simp
  have "take (st_count s) (concat (st_chunks ?s)) = elements s"
    using assms length_concat_chunks [of "st_chunks s" urkelRootChunkSize] by (simp add: elements_def store_ok_def)
  moreover have "take (Suc (st_count s)) (concat (st_chunks s')) = take (st_count s) (concat (st_chunks ?s)) @ [v]"
    unfolding s'(5) by (rule take_Suc_update [OF l])
  ultimately show ?thesis
    using s' i by (simp add: store_append_def Let_def store_ok_def elements_def Suc_le_eq)
qed

interpretation chunked: growable_array store_get store_set "store_append zero" store_ok elements for zero
  by unfold_locales (rule store_get_elements store_set_elements store_append_elements, assumption+)+

section \<open>The compact tree\<close>

type_synonym urkelRootRef = u32

definition urkelRootLeafFlag :: urkelRootRef where "urkelRootLeafFlag = push_bit 31 1"
definition urkelRootIndexMask :: urkelRootRef where "urkelRootIndexMask = urkelRootLeafFlag - 1"

record urkelRootLeaf =
  rl_key :: hash
  rl_hash :: hash

record urkelRootInternal =
  ri_hash :: hash
  ri_left :: urkelRootRef
  ri_right :: urkelRootRef
  ri_representativeLeaf :: urkelRootRef
  ri_prefixBits :: u16

record urkelRootTree =
  rt_root :: urkelRootRef
  rt_leaves :: "urkelRootLeaf urkelRootStore"
  rt_internals :: "urkelRootInternal urkelRootStore"

text \<open>A step on the tree: a result, and the tree it leaves.\<close>

type_synonym 'a rootOp = "urkelRootTree \<Rightarrow> 'a result \<times> urkelRootTree"

definition sbind :: "'a rootOp \<Rightarrow> ('a \<Rightarrow> 'b rootOp) \<Rightarrow> 'b rootOp" where
  "sbind m f = (\<lambda>t. case m t of (Inr a, t') \<Rightarrow> f a t' | (Inl e, t') \<Rightarrow> (Inl e, t'))"

definition readTree :: "(urkelRootTree \<Rightarrow> 'a result) \<Rightarrow> 'a rootOp" where
  "readTree f = (\<lambda>t. (f t, t))"

definition writeTree :: "(urkelRootTree \<Rightarrow> urkelRootTree result) \<Rightarrow> unit rootOp" where
  "writeTree f = (\<lambda>t. case f t of Inr t' \<Rightarrow> (Inr (), t') | Inl e \<Rightarrow> (Inl e, t))"

lemma sbind_cong [fundef_cong]:
  "m = m' \<Longrightarrow> (\<And>t a t'. m' t = (Inr a, t') \<Longrightarrow> f a = f' a) \<Longrightarrow> sbind m f = sbind m' f'"
  by (auto simp: sbind_def fun_eq_iff split: prod.split sum.split)

lemma sbind_apply:
  "m t = (Inr a, t') \<Longrightarrow> sbind m f t = f a t'"
  "m t = (Inl e, t') \<Longrightarrow> sbind m f t = (Inl e, t')"
  by (simp_all add: sbind_def)

definition ref_isLeaf :: "urkelRootRef \<Rightarrow> bool" where
  "ref_isLeaf r \<longleftrightarrow> r AND urkelRootLeafFlag \<noteq> 0"

definition ref_index :: "urkelRootRef \<Rightarrow> int" where
  "ref_index r = int (unat (r AND urkelRootIndexMask)) - 1"

definition makeUrkelRootRef :: "nat \<Rightarrow> bool \<Rightarrow> urkelRootRef result" where
  "makeUrkelRootRef index leaf =
     (if unat urkelRootIndexMask \<le> index then Inl (OtherError ''compact Urkel node index exceeds limit'')
      else Inr (if leaf then of_nat (index + 1) OR urkelRootLeafFlag else of_nat (index + 1)))"

definition tree_leaf :: "urkelRootTree \<Rightarrow> urkelRootRef \<Rightarrow> urkelRootLeaf result" where
  "tree_leaf t ref = store_get (rt_leaves t) (ref_index ref)"

definition tree_internal :: "urkelRootTree \<Rightarrow> urkelRootRef \<Rightarrow> urkelRootInternal result" where
  "tree_internal t ref = store_get (rt_internals t) (ref_index ref)"

definition nodeHash :: "urkelRootTree \<Rightarrow> urkelRootRef \<Rightarrow> hash result" where
  "nodeHash t ref =
     (if ref = 0 then Inr zeroHash
      else if ref_isLeaf ref then rbind (tree_leaf t ref) (\<lambda>l. Inr (rl_hash l))
      else rbind (tree_internal t ref) (\<lambda>n. Inr (ri_hash n)))"

definition representativeLeaf :: "urkelRootTree \<Rightarrow> urkelRootRef \<Rightarrow> urkelRootRef result" where
  "representativeLeaf t ref =
     (if ref_isLeaf ref then Inr ref else rbind (tree_internal t ref) (\<lambda>n. Inr (ri_representativeLeaf n)))"

definition internalPrefix :: "urkelRootTree \<Rightarrow> urkelRootInternal \<Rightarrow> nat \<Rightarrow> urkelBits result" where
  "internalPrefix t node depth =
     rbind (tree_leaf t (ri_representativeLeaf node)) (\<lambda>l.
     Inr (bits_slice (urkelBitsFromKey (rl_key l)) depth (depth + unat (ri_prefixBits node))))"

definition zeroRootLeaf :: urkelRootLeaf where
  "zeroRootLeaf = \<lparr>rl_key = zeroHash, rl_hash = zeroHash\<rparr>"

definition zeroRootInternal :: urkelRootInternal where
  "zeroRootInternal = \<lparr>ri_hash = zeroHash, ri_left = 0, ri_right = 0, ri_representativeLeaf = 0, ri_prefixBits = 0\<rparr>"

definition appendLeaf :: "urkelRootLeaf \<Rightarrow> urkelRootTree \<Rightarrow> urkelRootTree result" where
  "appendLeaf l t = rbind (store_append zeroRootLeaf (rt_leaves t) l) (\<lambda>s. Inr (t\<lparr>rt_leaves := s\<rparr>))"

definition appendInternal :: "urkelRootInternal \<Rightarrow> urkelRootTree \<Rightarrow> urkelRootTree result" where
  "appendInternal n t =
     rbind (store_append zeroRootInternal (rt_internals t) n) (\<lambda>s. Inr (t\<lparr>rt_internals := s\<rparr>))"

definition setLeaf :: "urkelRootRef \<Rightarrow> urkelRootLeaf \<Rightarrow> urkelRootTree \<Rightarrow> urkelRootTree result" where
  "setLeaf ref l t = rbind (store_set (rt_leaves t) (ref_index ref) l) (\<lambda>s. Inr (t\<lparr>rt_leaves := s\<rparr>))"

definition setInternal :: "urkelRootRef \<Rightarrow> urkelRootInternal \<Rightarrow> urkelRootTree \<Rightarrow> urkelRootTree result" where
  "setInternal ref n t = rbind (store_set (rt_internals t) (ref_index ref) n) (\<lambda>s. Inr (t\<lparr>rt_internals := s\<rparr>))"

definition addLeaf :: "hashers \<Rightarrow> hash \<Rightarrow> bytes \<Rightarrow> urkelRootRef rootOp" where
  "addLeaf H key value =
     sbind (readTree (\<lambda>t. makeUrkelRootRef (st_count (rt_leaves t)) True)) (\<lambda>ref.
     sbind (writeTree (appendLeaf \<lparr>rl_key = key, rl_hash = hashUrkelValue H key value\<rparr>)) (\<lambda>_.
     readTree (\<lambda>_. Inr ref)))"

definition addInternal :: "hashers \<Rightarrow> urkelBits \<Rightarrow> urkelRootRef \<Rightarrow> urkelRootRef \<Rightarrow> urkelRootRef rootOp" where
  "addInternal H pre left right =
     sbind (readTree (\<lambda>_. failIf (left = 0 \<or> right = 0) (AssertError ''compact Urkel internal has nil child''))) (\<lambda>_.
     sbind (readTree (\<lambda>_. failIf (urkelKeyBits \<le> ub_size pre) (AssertError ''compact Urkel prefix length is invalid''))) (\<lambda>_.
     sbind (readTree (\<lambda>t. makeUrkelRootRef (st_count (rt_internals t)) False)) (\<lambda>ref.
     sbind (readTree (\<lambda>t. nodeHash t left)) (\<lambda>lh.
     sbind (readTree (\<lambda>t. nodeHash t right)) (\<lambda>rh.
     sbind (readTree (\<lambda>t. representativeLeaf t left)) (\<lambda>rep.
     sbind (writeTree (appendInternal
        \<lparr>ri_hash = hashUrkelInternal H pre lh rh, ri_left = left, ri_right = right,
         ri_representativeLeaf = rep, ri_prefixBits = of_nat (ub_size pre)\<rparr>)) (\<lambda>_.
     readTree (\<lambda>_. Inr ref))))))))"

definition addBranch :: "hashers \<Rightarrow> urkelBits \<Rightarrow> urkelRootRef \<Rightarrow> urkelRootRef \<Rightarrow> bool \<Rightarrow> urkelRootRef rootOp" where
  "addBranch H pre x y b = (if \<not> b then addInternal H pre x y else addInternal H pre y x)"

lemma urkelHasBit_range: "urkelHasBit key i = Inr b \<Longrightarrow> i < 8 * length key"
  using urkelHasBit_panics [of key i] by (cases "8 * length key \<le> i") auto

function putAt :: "hashers \<Rightarrow> urkelRootRef \<Rightarrow> hash \<Rightarrow> bytes \<Rightarrow> nat \<Rightarrow> urkelRootRef rootOp" where
  "putAt H ref key value depth =
     (if ref = 0 then addLeaf H key value
      else if ref_isLeaf ref then
        sbind (readTree (\<lambda>t. tree_leaf t ref)) (\<lambda>leaf.
        if rl_key leaf = key then
          sbind (writeTree (setLeaf ref (leaf\<lparr>rl_hash := hashUrkelValue H key value\<rparr>))) (\<lambda>_.
          readTree (\<lambda>_. Inr ref))
        else
          let pre = bits_collide (urkelBitsFromKey (rl_key leaf)) key depth; nextDepth = depth + ub_size pre in
          sbind (addLeaf H key value) (\<lambda>newLeaf.
          sbind (readTree (\<lambda>_. urkelHasBit key nextDepth)) (\<lambda>b.
          addBranch H pre newLeaf ref b)))
      else
        sbind (readTree (\<lambda>t. tree_internal t ref)) (\<lambda>node.
        sbind (readTree (\<lambda>t. internalPrefix t node depth)) (\<lambda>pre.
        let bits = bits_count pre key depth; nextDepth = depth + bits in
        sbind (readTree (\<lambda>_. urkelHasBit key nextDepth)) (\<lambda>b.
        if bits \<noteq> ub_size pre then
          let (front, rear) = bits_split pre bits in
          sbind (readTree (\<lambda>t. nodeHash t (ri_left node))) (\<lambda>lh.
          sbind (readTree (\<lambda>t. nodeHash t (ri_right node))) (\<lambda>rh.
          sbind (writeTree (setInternal ref
             (node\<lparr>ri_prefixBits := of_nat (ub_size rear), ri_hash := hashUrkelInternal H rear lh rh\<rparr>))) (\<lambda>_.
          sbind (addLeaf H key value) (\<lambda>newLeaf.
          addBranch H front newLeaf ref b))))
        else
          sbind (if \<not> b then
                   sbind (putAt H (ri_left node) key value (nextDepth + 1)) (\<lambda>r.
                   readTree (\<lambda>_. Inr (node\<lparr>ri_left := r\<rparr>)))
                 else
                   sbind (putAt H (ri_right node) key value (nextDepth + 1)) (\<lambda>r.
                   readTree (\<lambda>_. Inr (node\<lparr>ri_right := r\<rparr>)))) (\<lambda>node.
          sbind (readTree (\<lambda>t. nodeHash t (ri_left node))) (\<lambda>lh.
          sbind (readTree (\<lambda>t. nodeHash t (ri_right node))) (\<lambda>rh.
          sbind (writeTree (setInternal ref (node\<lparr>ri_hash := hashUrkelInternal H pre lh rh\<rparr>))) (\<lambda>_.
          readTree (\<lambda>_. Inr ref)))))))))"
  by pat_completeness auto
termination
  by (relation "measure (\<lambda>(H, ref, key, value, depth). 8 * length key - depth)")
    (auto simp: readTree_def dest!: urkelHasBit_range)

declare putAt.simps [simp del]

definition tree_put :: "hashers \<Rightarrow> hash \<Rightarrow> bytes \<Rightarrow> unit rootOp" where
  "tree_put H key value =
     (\<lambda>t. sbind (putAt H (rt_root t) key value 0) (\<lambda>root. writeTree (\<lambda>t. Inr (t\<lparr>rt_root := root\<rparr>))) t)"

fun putLeaves :: "hashers \<Rightarrow> (hash \<times> bytes) list \<Rightarrow> unit rootOp" where
  "putLeaves H [] = readTree (\<lambda>_. Inr ())"
| "putLeaves H ((key, value) # leaves) = sbind (tree_put H key value) (\<lambda>_. putLeaves H leaves)"

definition tree_rebuild :: "hashers \<Rightarrow> (hash \<times> bytes) list \<Rightarrow> unit rootOp" where
  "tree_rebuild H leaves =
     sbind (writeTree (\<lambda>t. Inr (t\<lparr>rt_leaves := store_reset (rt_leaves t),
                                  rt_internals := store_reset (rt_internals t), rt_root := 0\<rparr>)))
       (\<lambda>_. putLeaves H leaves)"

definition rootHash :: "urkelRootTree \<Rightarrow> hash result" where
  "rootHash t = nodeHash t (rt_root t)"

section \<open>References\<close>

definition leafRef :: "nat \<Rightarrow> urkelRootRef" where "leafRef i = of_nat (i + 1) OR urkelRootLeafFlag"
definition internalRef :: "nat \<Rightarrow> urkelRootRef" where "internalRef i = of_nat (i + 1)"

definition maxNodes :: nat where "maxNodes = 2 ^ 31 - 1"

lemma unat_mask: "unat urkelRootIndexMask = maxNodes"
  by (simp add: urkelRootIndexMask_def urkelRootLeafFlag_def maxNodes_def)

lemma small_and_flag:
  assumes "n < 2 ^ 31"
  shows "(of_nat n :: u32) AND urkelRootLeafFlag = 0"
  unfolding urkelRootLeafFlag_def
proof (rule bit_word_eqI)
  fix i assume "i < LENGTH(32)"
  show "bit ((of_nat n :: u32) AND push_bit 31 1) i = bit (0 :: u32) i"
  proof (cases "i = 31")
    case True
    have "\<not> bit n 31" using assms by (simp add: bit_iff_odd)
    with True show ?thesis by (simp add: bit_simps)
  next
    case False
    then have "\<not> bit (push_bit 31 1 :: u32) i" by (auto simp only: bit_push_bit_iff bit_1_iff)
    then show ?thesis by (simp only: bit_and_iff bit_0_eq bot_apply bot_bool_def simp_thms)
  qed
qed

lemma small_and_mask:
  assumes "n < 2 ^ 31"
  shows "unat ((of_nat n :: u32) AND urkelRootIndexMask) = n"
proof -
  have m: "urkelRootIndexMask = mask 31"
    by (simp add: urkelRootIndexMask_def urkelRootLeafFlag_def mask_eq_exp_minus_1)
  have "unat (of_nat n :: u32) = n" using assms by (simp add: unat_of_nat)
  moreover have "take_bit 31 n = n" using assms by (simp add: take_bit_nat_eq_self_iff)
  ultimately have "unat (take_bit 31 (of_nat n :: u32)) = n" by (metis unsigned_take_bit_eq)
  then show ?thesis unfolding m by (simp only: take_bit_eq_mask)
qed

lemma flag_and_mask: "urkelRootLeafFlag AND urkelRootIndexMask = 0"
  by (simp add: urkelRootIndexMask_def urkelRootLeafFlag_def)

lemma ref_props:
  assumes "i < maxNodes"
  shows "ref_isLeaf (leafRef i)" "ref_index (leafRef i) = int i" "leafRef i \<noteq> 0"
    and "\<not> ref_isLeaf (internalRef i)" "ref_index (internalRef i) = int i" "internalRef i \<noteq> 0"
proof -
  have i: "i + 1 < 2 ^ 31" using assms by (simp add: maxNodes_def)
  note a = small_and_flag [OF i] and m = small_and_mask [OF i]
  have f: "urkelRootLeafFlag AND urkelRootLeafFlag \<noteq> 0" "urkelRootLeafFlag \<noteq> 0" by (simp_all add: urkelRootLeafFlag_def)
  show l: "ref_isLeaf (leafRef i)"
    using f unfolding ref_isLeaf_def leafRef_def bit.conj_disj_distrib2 a or.left_neutral by simp
  show "\<not> ref_isLeaf (internalRef i)" unfolding ref_isLeaf_def internalRef_def a by simp
  show "ref_index (leafRef i) = int i"
    using m unfolding ref_index_def leafRef_def bit.conj_disj_distrib2 flag_and_mask or.right_neutral by simp
  show ii: "ref_index (internalRef i) = int i" using m unfolding ref_index_def internalRef_def by simp
  show "leafRef i \<noteq> 0" using l by (auto simp: ref_isLeaf_def)
  show "internalRef i \<noteq> 0" using ii by (auto simp: ref_index_def)
qed

lemma makeUrkelRootRef_ok:
  "i < maxNodes \<Longrightarrow> makeUrkelRootRef i True = Inr (leafRef i)"
  "i < maxNodes \<Longrightarrow> makeUrkelRootRef i False = Inr (internalRef i)"
  by (simp_all add: makeUrkelRootRef_def unat_mask leafRef_def internalRef_def)

section \<open>The arena\<close>

abbreviation "lv t \<equiv> elements (rt_leaves t)"
abbreviation "iv t \<equiv> elements (rt_internals t)"

definition arena_ok :: "urkelRootTree \<Rightarrow> bool" where
  "arena_ok t \<longleftrightarrow> store_ok (rt_leaves t) \<and> store_ok (rt_internals t) \<and>
     length (lv t) \<le> maxNodes \<and> length (iv t) \<le> maxNodes"

definition leaf_ref :: "urkelRootTree \<Rightarrow> urkelRootRef \<Rightarrow> bool" where
  "leaf_ref t r \<longleftrightarrow> r \<in> leafRef ` {..<length (lv t)}"

definition int_ref :: "urkelRootTree \<Rightarrow> urkelRootRef \<Rightarrow> bool" where
  "int_ref t r \<longleftrightarrow> r \<in> internalRef ` {..<length (iv t)}"

definition lnode :: "urkelRootTree \<Rightarrow> urkelRootRef \<Rightarrow> urkelRootLeaf" where
  "lnode t r = lv t ! nat (ref_index r)"

definition inode :: "urkelRootTree \<Rightarrow> urkelRootRef \<Rightarrow> urkelRootInternal" where
  "inode t r = iv t ! nat (ref_index r)"

lemma leaf_refE:
  assumes "leaf_ref t r" "arena_ok t"
  obtains i where "i < length (lv t)" "r = leafRef i" "ref_index r = int i" "ref_isLeaf r" "r \<noteq> 0"
proof -
  obtain i where "i < length (lv t)" "r = leafRef i" using assms(1) by (auto simp: leaf_ref_def)
  moreover from this have "i < maxNodes" using assms(2) by (simp add: arena_ok_def)
  ultimately show thesis using ref_props that by blast
qed

lemma int_refE:
  assumes "int_ref t r" "arena_ok t"
  obtains i where "i < length (iv t)" "r = internalRef i" "ref_index r = int i" "\<not> ref_isLeaf r" "r \<noteq> 0"
proof -
  obtain i where "i < length (iv t)" "r = internalRef i" using assms(1) by (auto simp: int_ref_def)
  moreover from this have "i < maxNodes" using assms(2) by (simp add: arena_ok_def)
  ultimately show thesis using ref_props that by blast
qed

lemma tree_leaf_ok: "arena_ok t \<Longrightarrow> leaf_ref t r \<Longrightarrow> tree_leaf t r = Inr (lnode t r)"
  by (elim leaf_refE, assumption) (simp add: tree_leaf_def lnode_def arena_ok_def chunked.get_elems)

lemma tree_internal_ok: "arena_ok t \<Longrightarrow> int_ref t r \<Longrightarrow> tree_internal t r = Inr (inode t r)"
  by (elim int_refE, assumption) (simp add: tree_internal_def inode_def arena_ok_def chunked.get_elems)

lemma setLeaf_ok:
  assumes "arena_ok t" "leaf_ref t r"
  shows "\<exists>t'. setLeaf r l t = Inr t' \<and> arena_ok t' \<and> leaf_ref t' = leaf_ref t \<and> int_ref t' = int_ref t \<and>
    inode t' = inode t \<and> (\<forall>x. leaf_ref t x \<longrightarrow> lnode t' x = (if x = r then l else lnode t x)) \<and>
    length (lv t') = length (lv t) \<and> length (iv t') = length (iv t) \<and> rt_root t' = rt_root t"
proof -
  obtain i where i: "i < length (lv t)" "r = leafRef i" "ref_index r = int i" by (rule leaf_refE [OF assms(2,1)])
  obtain s where s: "store_set (rt_leaves t) (int i) l = Inr s" "store_ok s" "elements s = (lv t)[i := l]"
    using chunked.set_elems [of "rt_leaves t" i l] assms(1) i(1) by (auto simp: arena_ok_def)
  have "lnode (t\<lparr>rt_leaves := s\<rparr>) x = (if x = r then l else lnode t x)" if x: "leaf_ref t x" for x
  proof -
    obtain j where "j < length (lv t)" "x = leafRef j" "ref_index x = int j" by (rule leaf_refE [OF x assms(1)])
    with i s(3) show ?thesis by (auto simp: lnode_def nth_list_update)
  qed
  with s i assms(1) show ?thesis
    by (simp add: setLeaf_def arena_ok_def leaf_ref_def [abs_def] int_ref_def [abs_def] inode_def [abs_def])
qed

lemma setInternal_ok:
  assumes "arena_ok t" "int_ref t r"
  shows "\<exists>t'. setInternal r n t = Inr t' \<and> arena_ok t' \<and> leaf_ref t' = leaf_ref t \<and> int_ref t' = int_ref t \<and>
    lnode t' = lnode t \<and> (\<forall>x. int_ref t x \<longrightarrow> inode t' x = (if x = r then n else inode t x)) \<and>
    length (lv t') = length (lv t) \<and> length (iv t') = length (iv t) \<and> rt_root t' = rt_root t"
proof -
  obtain i where i: "i < length (iv t)" "r = internalRef i" "ref_index r = int i" by (rule int_refE [OF assms(2,1)])
  obtain s where s: "store_set (rt_internals t) (int i) n = Inr s" "store_ok s" "elements s = (iv t)[i := n]"
    using chunked.set_elems [of "rt_internals t" i n] assms(1) i(1) by (auto simp: arena_ok_def)
  have "inode (t\<lparr>rt_internals := s\<rparr>) x = (if x = r then n else inode t x)" if x: "int_ref t x" for x
  proof -
    obtain j where "j < length (iv t)" "x = internalRef j" "ref_index x = int j" by (rule int_refE [OF x assms(1)])
    with i s(3) show ?thesis by (auto simp: inode_def nth_list_update)
  qed
  with s i assms(1) show ?thesis
    by (simp add: setInternal_def arena_ok_def leaf_ref_def [abs_def] int_ref_def [abs_def] lnode_def [abs_def])
qed

definition valid_ref :: "urkelRootTree \<Rightarrow> urkelRootRef \<Rightarrow> bool" where
  "valid_ref t r \<longleftrightarrow> leaf_ref t r \<or> int_ref t r"

text \<open>\<open>t'\<close> keeps every node of \<open>t\<close>; only those in \<open>S\<close> may differ, and no leaf changes its key.\<close>

definition extends :: "urkelRootRef set \<Rightarrow> urkelRootTree \<Rightarrow> urkelRootTree \<Rightarrow> bool" where
  "extends S t t' \<longleftrightarrow>
     (\<forall>x. leaf_ref t x \<longrightarrow> leaf_ref t' x \<and> rl_key (lnode t' x) = rl_key (lnode t x) \<and>
        (x \<notin> S \<longrightarrow> lnode t' x = lnode t x)) \<and>
     (\<forall>x. int_ref t x \<longrightarrow> int_ref t' x \<and> (x \<notin> S \<longrightarrow> inode t' x = inode t x))"

lemma extends_trans:
  "extends S t t1 \<Longrightarrow> extends S' t1 t2 \<Longrightarrow> (\<And>x. x \<in> S' \<Longrightarrow> valid_ref t x \<Longrightarrow> x \<in> S) \<Longrightarrow> extends S t t2"
  unfolding extends_def valid_ref_def by metis

lemma extends_mono: "extends S t t' \<Longrightarrow> S \<subseteq> S' \<Longrightarrow> extends S' t t'"
  unfolding extends_def by blast

lemma extends_valid: "extends S t t' \<Longrightarrow> valid_ref t x \<Longrightarrow> valid_ref t' x"
  unfolding extends_def valid_ref_def by blast

text \<open>Adding a node: the new reference is fresh and nothing else changes.\<close>

lemma addLeaf_ok:
  assumes "arena_ok t" "length (lv t) < maxNodes"
  shows "\<exists>t' r. addLeaf H key value t = (Inr r, t') \<and> arena_ok t' \<and> \<not> valid_ref t r \<and> leaf_ref t' r \<and>
    extends {} t t' \<and> lnode t' r = \<lparr>rl_key = key, rl_hash = hashUrkelValue H key value\<rparr> \<and>
    length (lv t') = length (lv t) + 1 \<and> length (iv t') = length (iv t) \<and> rt_root t' = rt_root t"
proof -
  let ?l = "\<lparr>rl_key = key, rl_hash = hashUrkelValue H key value\<rparr>" and ?r = "leafRef (length (lv t))"
  obtain s where s: "store_append zeroRootLeaf (rt_leaves t) ?l = Inr s" "store_ok s" "elements s = lv t @ [?l]"
    using chunked.append_elems [of "rt_leaves t" zeroRootLeaf ?l] assms(1) by (auto simp: arena_ok_def)
  let ?t = "t\<lparr>rt_leaves := s\<rparr>"
  have c: "st_count (rt_leaves t) = length (lv t)" using assms(1) by (simp add: arena_ok_def length_elements)
  have op: "addLeaf H key value t = (Inr ?r, ?t)"
    using assms(2) c s(1)
    by (simp add: addLeaf_def sbind_def readTree_def writeTree_def appendLeaf_def makeUrkelRootRef_ok(1))
  have r: "ref_index ?r = int (length (lv t))" "ref_isLeaf ?r" using ref_props [OF assms(2)] by simp_all
  have new: "\<not> valid_ref t ?r"
    unfolding valid_ref_def using r leaf_refE [of t ?r] int_refE [of t ?r] assms(1)
    by (metis less_irrefl of_nat_eq_iff)
  have ext: "extends {} t ?t"
    unfolding extends_def
  proof (intro conjI allI impI)
    fix x assume x: "leaf_ref t x"
    then show "leaf_ref ?t x" by (auto simp: leaf_ref_def s(3))
    obtain j where "j < length (lv t)" "ref_index x = int j" by (rule leaf_refE [OF x assms(1)])
    with s(3) show "lnode ?t x = lnode t x" by (simp add: lnode_def nth_append)
    then show "rl_key (lnode ?t x) = rl_key (lnode t x)" by simp
  qed (simp_all add: int_ref_def inode_def)
  have "leaf_ref ?t ?r" by (simp add: leaf_ref_def s(3))
  moreover have "lnode ?t ?r = ?l" by (simp add: lnode_def s(3) r)
  moreover have "arena_ok ?t" using assms s by (simp add: arena_ok_def)
  ultimately show ?thesis using op new ext s(3) by (intro exI [of _ ?t] exI [of _ ?r]) simp
qed

lemma appendInternal_ok:
  assumes "arena_ok t" "length (iv t) < maxNodes"
  shows "\<exists>t'. appendInternal n t = Inr t' \<and> arena_ok t' \<and> \<not> valid_ref t (internalRef (length (iv t))) \<and>
    int_ref t' (internalRef (length (iv t))) \<and> extends {} t t' \<and> inode t' (internalRef (length (iv t))) = n \<and>
    length (lv t') = length (lv t) \<and> length (iv t') = length (iv t) + 1 \<and> rt_root t' = rt_root t"
proof -
  let ?r = "internalRef (length (iv t))"
  obtain s where s: "store_append zeroRootInternal (rt_internals t) n = Inr s" "store_ok s" "elements s = iv t @ [n]"
    using chunked.append_elems [of "rt_internals t" zeroRootInternal n] assms(1) by (auto simp: arena_ok_def)
  let ?t = "t\<lparr>rt_internals := s\<rparr>"
  have r: "ref_index ?r = int (length (iv t))" "\<not> ref_isLeaf ?r" using ref_props [OF assms(2)] by simp_all
  have new: "\<not> valid_ref t ?r"
    unfolding valid_ref_def using r leaf_refE [of t ?r] int_refE [of t ?r] assms(1)
    by (metis less_irrefl of_nat_eq_iff)
  have ext: "extends {} t ?t"
    unfolding extends_def
  proof (intro conjI allI impI)
    fix x assume x: "int_ref t x"
    then show "int_ref ?t x" by (auto simp: int_ref_def s(3))
    obtain j where "j < length (iv t)" "ref_index x = int j" by (rule int_refE [OF x assms(1)])
    with s(3) show "inode ?t x = inode t x" by (simp add: inode_def nth_append)
  qed (simp_all add: leaf_ref_def lnode_def)
  have "int_ref ?t ?r" by (simp add: int_ref_def s(3))
  moreover have "inode ?t ?r = n" by (simp add: inode_def s(3) r)
  moreover have "arena_ok ?t" using assms s by (simp add: arena_ok_def)
  ultimately show ?thesis using new ext s by (intro exI [of _ ?t]) (simp add: appendInternal_def)
qed

section \<open>What the arena represents\<close>

fun refs :: "urkelRootTree \<Rightarrow> urkelRootRef \<Rightarrow> urkelNode \<Rightarrow> urkelRootRef set" where
  "refs t r (LeafNode k v h) = {r}"
| "refs t r (InternalNode q a b h) =
     insert r (refs t (ri_left (inode t r)) a \<union> refs t (ri_right (inode t r)) b)"

text \<open>The node at reference \<open>r\<close>, found at bit path \<open>p\<close>, represents a node of the immutable tree. The
  nodes of the two subtrees are apart from each other and from \<open>r\<close>.\<close>

fun rep :: "urkelRootTree \<Rightarrow> urkelRootRef \<Rightarrow> bool list \<Rightarrow> urkelNode \<Rightarrow> bool" where
  "rep t r p (LeafNode k v h) \<longleftrightarrow> leaf_ref t r \<and> rl_key (lnode t r) = k \<and> rl_hash (lnode t r) = h"
| "rep t r p (InternalNode q a b h) \<longleftrightarrow>
     int_ref t r \<and> ri_hash (inode t r) = h \<and> unat (ri_prefixBits (inode t r)) = ub_size q \<and>
     leaf_ref t (ri_representativeLeaf (inode t r)) \<and>
     length (rl_key (lnode t (ri_representativeLeaf (inode t r)))) = HashSize \<and>
     prefix (p @ ubits q) (kbits (rl_key (lnode t (ri_representativeLeaf (inode t r))))) \<and>
     rep t (ri_left (inode t r)) (p @ ubits q @ [False]) a \<and>
     rep t (ri_right (inode t r)) (p @ ubits q @ [True]) b \<and>
     r \<notin> refs t (ri_left (inode t r)) a \<union> refs t (ri_right (inode t r)) b \<and>
     refs t (ri_left (inode t r)) a \<inter> refs t (ri_right (inode t r)) b = {}"

lemma rep_valid: "rep t r p n \<Longrightarrow> valid_ref t r"
  by (cases n) (simp_all add: valid_ref_def)

lemma rep_self: "r \<in> refs t r n"
  by (cases n) simp_all

lemma refs_valid: "rep t r p n \<Longrightarrow> x \<in> refs t r n \<Longrightarrow> valid_ref t x"
  by (induction n arbitrary: r p) (auto simp: valid_ref_def)

lemma rep_frame:
  "rep t r p n \<Longrightarrow> extends S t t' \<Longrightarrow> refs t r n \<inter> S = {} \<Longrightarrow> rep t' r p n \<and> refs t' r n = refs t r n"
proof (induction n arbitrary: r p)
  case (LeafNode k v h)
  then show ?case by (auto simp: extends_def)
next
  case (InternalNode q a b h)
  let ?i = "inode t r"
  have same: "inode t' r = ?i" "int_ref t' r" using InternalNode.prems by (auto simp: extends_def)
  have a: "rep t' (ri_left ?i) (p @ ubits q @ [False]) a \<and> refs t' (ri_left ?i) a = refs t (ri_left ?i) a"
    using InternalNode.prems by (intro InternalNode.IH(1)) auto
  have b: "rep t' (ri_right ?i) (p @ ubits q @ [True]) b \<and> refs t' (ri_right ?i) b = refs t (ri_right ?i) b"
    using InternalNode.prems by (intro InternalNode.IH(2)) auto
  have "leaf_ref t' (ri_representativeLeaf ?i) \<and>
      rl_key (lnode t' (ri_representativeLeaf ?i)) = rl_key (lnode t (ri_representativeLeaf ?i))"
    using InternalNode.prems(1,2) by (simp add: extends_def)
  with InternalNode.prems(1) same a b show ?case by simp
qed

lemma leaf_ref_isLeaf: "arena_ok t \<Longrightarrow> leaf_ref t r \<Longrightarrow> ref_isLeaf r \<and> r \<noteq> 0"
  by (erule leaf_refE) auto

lemma int_ref_isLeaf: "arena_ok t \<Longrightarrow> int_ref t r \<Longrightarrow> \<not> ref_isLeaf r \<and> r \<noteq> 0"
  by (erule int_refE) auto

lemma nodeHash_rep: "arena_ok t \<Longrightarrow> rep t r p n \<Longrightarrow> nodeHash t r = Inr (node_hash n)"
  by (cases n) (auto simp: nodeHash_def tree_leaf_ok tree_internal_ok leaf_ref_isLeaf int_ref_isLeaf)

lemma rep_nonzero: "arena_ok t \<Longrightarrow> rep t r p n \<Longrightarrow> r \<noteq> 0"
  by (cases n) (auto simp: leaf_ref_isLeaf int_ref_isLeaf)

lemma representativeLeaf_rep:
  assumes "arena_ok t" "rep t r p n" "tree_at H p n"
  shows "\<exists>l. representativeLeaf t r = Inr l \<and> leaf_ref t l \<and> length (rl_key (lnode t l)) = HashSize \<and>
    prefix p (kbits (rl_key (lnode t l)))"
proof (cases n)
  case (LeafNode k v h)
  with assms show ?thesis by (auto simp: representativeLeaf_def leaf_ref_isLeaf)
next
  case (InternalNode q a b h)
  with assms have "prefix (p @ ubits q) (kbits (rl_key (lnode t (ri_representativeLeaf (inode t r)))))" by simp
  then have "prefix p (kbits (rl_key (lnode t (ri_representativeLeaf (inode t r)))))" by (rule append_prefixD)
  with InternalNode assms show ?thesis by (auto simp: representativeLeaf_def int_ref_isLeaf tree_internal_ok)
qed

lemma internalPrefix_rep:
  assumes "arena_ok t" "rep t r p (InternalNode q a b h)" "bits_canon q"
  shows "internalPrefix t (inode t r) (length p) = Inr q"
proof -
  let ?k = "rl_key (lnode t (ri_representativeLeaf (inode t r)))"
  have k: "length ?k = HashSize" "prefix (p @ ubits q) (kbits ?k)" "leaf_ref t (ri_representativeLeaf (inode t r))"
    "unat (ri_prefixBits (inode t r)) = ub_size q" using assms(2) by simp_all
  then have l: "length p + ub_size q \<le> urkelKeyBits"
    using prefix_length_le [OF k(2)] by (simp add: urkelKeyBits_def)
  have "bits_slice (urkelBitsFromKey ?k) (length p) (length p + ub_size q) = q"
  proof (rule bits_canon_inject)
    show "bits_canon (bits_slice (urkelBitsFromKey ?k) (length p) (length p + ub_size q))"
      using l by (intro bits_canon_bits_slice) simp
    have "ubits (bits_slice (urkelBitsFromKey ?k) (length p) (length p + ub_size q)) =
        take (ub_size q) (drop (length p) (kbits ?k))"
      using ubits_bits_slice [of "length p + ub_size q" "urkelBitsFromKey ?k" "length p"] l k(1) by simp
    also have "\<dots> = ubits q" using k(2) by (auto simp: prefix_def)
    finally show "ubits (bits_slice (urkelBitsFromKey ?k) (length p) (length p + ub_size q)) = ubits q" .
  qed (rule assms(3))
  then show ?thesis using assms(1) k by (simp add: internalPrefix_def tree_leaf_ok)
qed

text \<open>Joining two represented nodes under a new internal node.\<close>

lemma addInternal_ok:
  assumes t: "arena_ok t" "length (iv t) < maxNodes"
    and x: "rep t x (p @ ubits q @ [False]) nx" "tree_at H (p @ ubits q @ [False]) nx"
    and y: "rep t y (p @ ubits q @ [True]) ny" "tree_at H (p @ ubits q @ [True]) ny"
    and q: "bits_canon q" and apart: "refs t x nx \<inter> refs t y ny = {}"
  shows "\<exists>r t'. addInternal H q x y t = (Inr r, t') \<and> arena_ok t' \<and>
    rep t' r p (newUrkelInternalDirect H q nx ny) \<and> extends {} t t' \<and> \<not> valid_ref t r \<and>
    refs t' r (newUrkelInternalDirect H q nx ny) = insert r (refs t x nx \<union> refs t y ny) \<and>
    length (lv t') = length (lv t) \<and> length (iv t') = length (iv t) + 1 \<and> rt_root t' = rt_root t"
proof -
  let ?r = "internalRef (length (iv t))"
  obtain l where l: "representativeLeaf t x = Inr l" "leaf_ref t l" "length (rl_key (lnode t l)) = HashSize"
    "prefix (p @ ubits q @ [False]) (kbits (rl_key (lnode t l)))"
    using representativeLeaf_rep [OF t(1) x] by blast
  have sz: "ub_size q < urkelKeyBits" using tree_at_depth [OF x(2)] by simp
  let ?n = "\<lparr>ri_hash = hashUrkelInternal H q (node_hash nx) (node_hash ny), ri_left = x, ri_right = y,
    ri_representativeLeaf = l, ri_prefixBits = of_nat (ub_size q)\<rparr>"
  obtain t' where t': "appendInternal ?n t = Inr t'" "arena_ok t'" "\<not> valid_ref t ?r" "int_ref t' ?r"
    "extends {} t t'" "inode t' ?r = ?n" "length (lv t') = length (lv t)" "length (iv t') = length (iv t) + 1"
    "rt_root t' = rt_root t"
    using appendInternal_ok [OF t, of ?n] by blast
  have "st_count (rt_internals t) = length (iv t)" using t(1) by (simp add: arena_ok_def length_elements)
  then have op: "addInternal H q x y t = (Inr ?r, t')"
    using rep_nonzero [OF t(1) x(1)] rep_nonzero [OF t(1) y(1)] sz t' l(1) t(2)
      nodeHash_rep [OF t(1) x(1)] nodeHash_rep [OF t(1) y(1)]
    by (simp add: addInternal_def sbind_def readTree_def writeTree_def makeUrkelRootRef_ok(2))
  have fx: "rep t' x (p @ ubits q @ [False]) nx \<and> refs t' x nx = refs t x nx" by (rule rep_frame [OF x(1) t'(5)]) simp
  have fy: "rep t' y (p @ ubits q @ [True]) ny \<and> refs t' y ny = refs t y ny" by (rule rep_frame [OF y(1) t'(5)]) simp
  have "?r \<notin> refs t x nx \<union> refs t y ny"
    using t'(3) refs_valid [OF x(1)] refs_valid [OF y(1)] by blast
  moreover have "unat (of_nat (ub_size q) :: u16) = ub_size q"
    using sz by (simp add: unat_of_nat urkelKeyBits_def)
  moreover have "leaf_ref t' l" "rl_key (lnode t' l) = rl_key (lnode t l)"
    using t'(5) l(2) by (simp_all add: extends_def)
  moreover have "prefix (p @ ubits q) (kbits (rl_key (lnode t l)))"
    using append_prefixD [of "p @ ubits q" "[False]"] l(4) by simp
  ultimately have "rep t' ?r p (newUrkelInternalDirect H q nx ny)"
    using t'(4,6) fx fy apart l(3) by (simp add: newUrkelInternalDirect_def)
  moreover have "refs t' ?r (newUrkelInternalDirect H q nx ny) = insert ?r (refs t x nx \<union> refs t y ny)"
    using t'(6) fx fy by (simp add: newUrkelInternalDirect_def)
  ultimately show ?thesis using op t' by blast
qed

lemma addBranch_ok:
  assumes t: "arena_ok t" "length (iv t) < maxNodes"
    and x: "rep t x (p @ ubits q @ [b]) nx" "tree_at H (p @ ubits q @ [b]) nx"
    and y: "rep t y (p @ ubits q @ [\<not> b]) ny" "tree_at H (p @ ubits q @ [\<not> b]) ny"
    and q: "bits_canon q" and apart: "refs t x nx \<inter> refs t y ny = {}"
  shows "\<exists>r t'. addBranch H q x y b t = (Inr r, t') \<and> arena_ok t' \<and>
    rep t' r p (newUrkelInternal H q nx ny b) \<and> extends {} t t' \<and> \<not> valid_ref t r \<and>
    refs t' r (newUrkelInternal H q nx ny b) = insert r (refs t x nx \<union> refs t y ny) \<and>
    length (lv t') = length (lv t) \<and> length (iv t') = length (iv t) + 1 \<and> rt_root t' = rt_root t"
proof (cases b)
  case True
  with addInternal_ok [OF t, of y p q ny H x nx] x y q apart show ?thesis
    by (simp add: addBranch_def newUrkelInternal_def Un_commute Int_commute)
next
  case False
  with addInternal_ok [OF t, of x p q nx H y ny] x y q apart show ?thesis
    by (simp add: addBranch_def newUrkelInternal_def)
qed

text \<open>Adding a leaf next to a represented node.\<close>

lemma addSibling_ok:
  assumes t: "arena_ok t" "length (lv t) < maxNodes" "length (iv t) < maxNodes"
    and key: "length key = HashSize" "prefix (p @ ubits q @ [b]) (kbits key)"
    and y: "rep t y (p @ ubits q @ [\<not> b]) ny" "tree_at H (p @ ubits q @ [\<not> b]) ny" and q: "bits_canon q"
  obtains l t1 r t' where "addLeaf H key value t = (Inr l, t1)" "addBranch H q l y b t1 = (Inr r, t')"
    "arena_ok t'" "rep t' r p (newUrkelInternal H q (newUrkelLeaf H key value) ny b)" "extends {} t t'"
    "\<And>x. x \<in> refs t' r (newUrkelInternal H q (newUrkelLeaf H key value) ny b) \<Longrightarrow> x \<in> refs t y ny \<or> \<not> valid_ref t x"
    "length (lv t') = length (lv t) + 1" "length (iv t') = length (iv t) + 1" "rt_root t' = rt_root t"
proof -
  obtain l t1 where l: "addLeaf H key value t = (Inr l, t1)" "arena_ok t1" "\<not> valid_ref t l" "leaf_ref t1 l"
    "extends {} t t1" "lnode t1 l = \<lparr>rl_key = key, rl_hash = hashUrkelValue H key value\<rparr>"
    "length (lv t1) = length (lv t) + 1" "length (iv t1) = length (iv t)" "rt_root t1 = rt_root t"
    using addLeaf_ok [OF t(1,2), of H key "value"] by blast
  have new: "rep t1 l (p @ ubits q @ [b]) (newUrkelLeaf H key value)"
    "tree_at H (p @ ubits q @ [b]) (newUrkelLeaf H key value)" "refs t1 l (newUrkelLeaf H key value) = {l}"
    using l(4,6) key by (simp_all add: newUrkelLeaf_def)
  have old: "rep t1 y (p @ ubits q @ [\<not> b]) ny" "refs t1 y ny = refs t y ny"
    using rep_frame [OF y(1) l(5)] by simp_all
  have "refs t1 l (newUrkelLeaf H key value) \<inter> refs t1 y ny = {}"
    using refs_valid [OF y(1)] l(3) new(3) old(2) by auto
  then obtain r t' where r: "addBranch H q l y b t1 = (Inr r, t')" "arena_ok t'"
    "rep t' r p (newUrkelInternal H q (newUrkelLeaf H key value) ny b)" "extends {} t1 t'" "\<not> valid_ref t1 r"
    "refs t' r (newUrkelInternal H q (newUrkelLeaf H key value) ny b) = insert r ({l} \<union> refs t y ny)"
    "length (lv t') = length (lv t1)" "length (iv t') = length (iv t1) + 1" "rt_root t' = rt_root t1"
    using addBranch_ok [OF l(2) _ new(1,2) old(1) y(2) q] t(3) l(8) new(3) old(2) by auto
  have "\<not> valid_ref t r" using r(5) extends_valid [OF l(5)] by blast
  then show thesis
    using l r extends_trans [OF l(5) r(4)] by (intro that [of l t1 r t']) auto
qed

section \<open>Insertion implements insertion\<close>

definition puts :: "urkelRootTree \<Rightarrow> urkelRootRef \<Rightarrow> bool list \<Rightarrow> urkelNode \<Rightarrow> urkelRootTree \<Rightarrow> urkelRootRef \<Rightarrow> urkelNode \<Rightarrow> bool" where
  "puts t r p n t' r' n' \<longleftrightarrow> arena_ok t' \<and> rep t' r' p n' \<and> extends (refs t r n) t t' \<and>
     (\<forall>x\<in>refs t' r' n'. x \<in> refs t r n \<or> \<not> valid_ref t x) \<and>
     length (lv t') \<le> length (lv t) + 1 \<and> length (iv t') \<le> length (iv t) + 1 \<and> rt_root t' = rt_root t"

lemma putAt_leaf:
  assumes t: "arena_ok t" "length (lv t) < maxNodes" "length (iv t) < maxNodes"
    and r: "rep t r p (LeafNode k v h)" "tree_at H p (LeafNode k v h)"
    and key: "length key = HashSize" "prefix p (kbits key)"
  shows "\<exists>r' t' n'. putAt H r key value (length p) t = (Inr r', t') \<and>
    insertNode H (LeafNode k v h) key value (length p) = Inr n' \<and> puts t r p (LeafNode k v h) t' r' n'"
proof -
  have lr: "leaf_ref t r" "rl_key (lnode t r) = k" using r(1) by simp_all
  note lf = leaf_ref_isLeaf [OF t(1) lr(1)]
  show ?thesis
  proof (cases "k = key")
    case True
    let ?l = "(lnode t r)\<lparr>rl_hash := hashUrkelValue H key value\<rparr>"
    obtain t' where t': "setLeaf r ?l t = Inr t'" "arena_ok t'" "leaf_ref t' = leaf_ref t" "int_ref t' = int_ref t"
      "inode t' = inode t" "\<forall>x. leaf_ref t x \<longrightarrow> lnode t' x = (if x = r then ?l else lnode t x)"
      "length (lv t') = length (lv t)" "length (iv t') = length (iv t)" "rt_root t' = rt_root t"
      using setLeaf_ok [OF t(1) lr(1), of ?l] by blast
    have "putAt H r key value (length p) t = (Inr r, t')"
      using lf lr True t'(1) t(1)
      by (subst putAt.simps) (simp add: sbind_def readTree_def writeTree_def tree_leaf_ok)
    moreover have "puts t r p (LeafNode k v h) t' r (newUrkelLeaf H key value)"
      using t' lr True by (simp add: puts_def newUrkelLeaf_def extends_def)
    ultimately show ?thesis using True by simp
  next
    case False
    let ?c = "bits_collide (urkelBitsFromKey k) key (length p)"
    let ?b = "kbits key ! (length p + ub_size ?c)"
    note sp = leaf_split [OF r(2) False key]
    have "rep t r (p @ ubits ?c @ [\<not> ?b]) (LeafNode k v h)" using r(1) by simp
    from addSibling_ok [OF t key(1) sp(3) this sp(4,1), of "value"] obtain l t1 r' t' where s:
      "addLeaf H key value t = (Inr l, t1)" "addBranch H ?c l r ?b t1 = (Inr r', t')" "arena_ok t'"
      "rep t' r' p (newUrkelInternal H ?c (newUrkelLeaf H key value) (LeafNode k v h) ?b)" "extends {} t t'"
      "\<And>x. x \<in> refs t' r' (newUrkelInternal H ?c (newUrkelLeaf H key value) (LeafNode k v h) ?b) \<Longrightarrow>
         x \<in> refs t r (LeafNode k v h) \<or> \<not> valid_ref t x"
      "length (lv t') = length (lv t) + 1" "length (iv t') = length (iv t) + 1" "rt_root t' = rt_root t"
      by metis
    have "putAt H r key value (length p) t = (Inr r', t')"
      using lf lr False s(1,2) t(1) sp(2)
      by (subst putAt.simps) (simp add: sbind_def readTree_def tree_leaf_ok urkelHasBit_ok Let_def)
    moreover have "insertNode H (LeafNode k v h) key value (length p) =
        Inr (newUrkelInternal H ?c (newUrkelLeaf H key value) (LeafNode k v h) ?b)"
      using sp(2) False by (simp add: urkelHasBit_ok Let_def)
    moreover have "puts t r p (LeafNode k v h) t' r' (newUrkelInternal H ?c (newUrkelLeaf H key value) (LeafNode k v h) ?b)"
      using s extends_mono [OF s(5)] unfolding puts_def by simp
    ultimately show ?thesis by blast
  qed
qed

lemma putAt_split:
  assumes t: "arena_ok t" "length (lv t) < maxNodes" "length (iv t) < maxNodes"
    and r: "rep t r p (InternalNode q a c h)" "tree_at H p (InternalNode q a c h)"
    and key: "length key = HashSize" "prefix p (kbits key)" and n: "bits_count q key (length p) \<noteq> ub_size q"
  shows "\<exists>r' t' n'. putAt H r key value (length p) t = (Inr r', t') \<and>
    insertNode H (InternalNode q a c h) key value (length p) = Inr n' \<and> puts t r p (InternalNode q a c h) t' r' n'"
proof -
  let ?n = "bits_count q key (length p)" and ?i = "inode t r"
  let ?b = "kbits key ! (length p + ?n)"
  obtain front rear where fb: "bits_split q ?n = (front, rear)" by fastforce
  note sp = internal_split [OF r(2) key n fb]
  have q: "bits_canon q" and ir: "int_ref t r" using r by simp_all
  note ni = int_ref_isLeaf [OF t(1) ir] and pre = internalPrefix_rep [OF t(1) r(1) q]
  have ra: "rep t (ri_left ?i) (p @ ubits q @ [False]) a" and rc: "rep t (ri_right ?i) (p @ ubits q @ [True]) c"
    using r(1) by simp_all
  note hs = nodeHash_rep [OF t(1) ra] nodeHash_rep [OF t(1) rc]
  let ?i' = "?i\<lparr>ri_prefixBits := of_nat (ub_size rear), ri_hash := hashUrkelInternal H rear (node_hash a) (node_hash c)\<rparr>"
  obtain t0 where t0: "setInternal r ?i' t = Inr t0" "arena_ok t0" "leaf_ref t0 = leaf_ref t" "int_ref t0 = int_ref t"
    "lnode t0 = lnode t" "\<forall>x. int_ref t x \<longrightarrow> inode t0 x = (if x = r then ?i' else inode t x)"
    "length (lv t0) = length (lv t)" "length (iv t0) = length (iv t)" "rt_root t0 = rt_root t"
    using setInternal_ok [OF t(1) ir, of ?i'] by blast
  have e0: "extends {r} t t0" using t0 by (simp add: extends_def)
  have i0: "inode t0 r = ?i'" using t0(6) ir by simp
  let ?child = "newUrkelInternalDirect H rear a c"
  have fa: "rep t0 (ri_left ?i) (p @ ubits q @ [False]) a \<and> refs t0 (ri_left ?i) a = refs t (ri_left ?i) a"
    and fc: "rep t0 (ri_right ?i) (p @ ubits q @ [True]) c \<and> refs t0 (ri_right ?i) c = refs t (ri_right ?i) c"
    using rep_frame [OF ra e0] rep_frame [OF rc e0] r(1) by auto
  have sz: "unat (of_nat (ub_size rear) :: u16) = ub_size rear"
    using sp(2) by (simp add: bits_canon_def bits_ok_def urkelKeyBits_def unat_of_nat)
  define P where "P = p @ ubits front @ [\<not> ?b]"
  have P: "P @ ubits rear @ xs = p @ ubits q @ xs" "P @ ubits rear = p @ ubits q" for xs
    using sp(6) [of xs] sp(6) [of "[]"] by (simp_all only: P_def append_Nil2)
  have "rep t0 r P ?child"
    using r(1) fa fc sz t0(3-5) by (simp add: newUrkelInternalDirect_def i0 P)
  then have child: "rep t0 r (p @ ubits front @ [\<not> ?b]) ?child" "refs t0 r ?child = refs t r (InternalNode q a c h)"
    using fa fc by (simp_all only: P_def) (simp add: newUrkelInternalDirect_def i0)
  have tc: "tree_at H (p @ ubits front @ [\<not> ?b]) ?child"
    using r(2) sp(2) by (simp only: tree_at_newUrkelInternalDirect tree_at.simps sp(6) simp_thms)
  from addSibling_ok [OF t0(2) _ _ key(1) sp(5) child(1) tc sp(1), of "value"] t(2,3) t0(7,8) obtain l t1 r' t' where s:
    "addLeaf H key value t0 = (Inr l, t1)" "addBranch H front l r ?b t1 = (Inr r', t')" "arena_ok t'"
    "rep t' r' p (newUrkelInternal H front (newUrkelLeaf H key value) ?child ?b)" "extends {} t0 t'"
    "\<And>x. x \<in> refs t' r' (newUrkelInternal H front (newUrkelLeaf H key value) ?child ?b) \<Longrightarrow>
       x \<in> refs t0 r ?child \<or> \<not> valid_ref t0 x"
    "length (lv t') = length (lv t0) + 1" "length (iv t') = length (iv t0) + 1" "rt_root t' = rt_root t0"
    by (metis (no_types, lifting))
  have "putAt H r key value (length p) t = (Inr r', t')"
    using ni s(1,2) t(1) sp(3) t0(1) pre hs n ir
    by (subst putAt.simps) (simp add: sbind_def readTree_def writeTree_def tree_internal_ok urkelHasBit_ok Let_def fb)
  moreover have "insertNode H (InternalNode q a c h) key value (length p) =
      Inr (newUrkelInternal H front (newUrkelLeaf H key value) ?child ?b)"
    using sp(3) n by (simp add: urkelHasBit_ok Let_def fb)
  moreover have "extends (refs t r (InternalNode q a c h)) t t'"
    using extends_trans [OF e0 s(5)] by (rule extends_mono) simp_all
  then have "puts t r p (InternalNode q a c h) t' r' (newUrkelInternal H front (newUrkelLeaf H key value) ?child ?b)"
    using s t0(3,4,7-9) child(2) unfolding puts_def valid_ref_def by simp
  ultimately show ?thesis by blast
qed

text \<open>Writing an internal node back over its two represented children.\<close>

lemma writeBack_ok:
  assumes t: "arena_ok t" "int_ref t r" and q: "bits_canon q" "ub_size q < urkelKeyBits"
    and a: "rep t x (p @ ubits q @ [False]) a" and c: "rep t y (p @ ubits q @ [True]) c"
    and apart: "r \<notin> refs t x a \<union> refs t y c" "refs t x a \<inter> refs t y c = {}"
    and i: "ri_left i = x" "ri_right i = y" "unat (ri_prefixBits i) = ub_size q"
      "leaf_ref t (ri_representativeLeaf i)" "length (rl_key (lnode t (ri_representativeLeaf i))) = HashSize"
      "prefix (p @ ubits q) (kbits (rl_key (lnode t (ri_representativeLeaf i))))"
  obtains t' where "nodeHash t x = Inr (node_hash a)" "nodeHash t y = Inr (node_hash c)"
    "setInternal r (i\<lparr>ri_hash := hashUrkelInternal H q (node_hash a) (node_hash c)\<rparr>) t = Inr t'" "arena_ok t'"
    "rep t' r p (newUrkelInternalDirect H q a c)" "extends {r} t t'"
    "refs t' r (newUrkelInternalDirect H q a c) = insert r (refs t x a \<union> refs t y c)"
    "length (lv t') = length (lv t)" "length (iv t') = length (iv t)" "rt_root t' = rt_root t"
proof -
  let ?i = "i\<lparr>ri_hash := hashUrkelInternal H q (node_hash a) (node_hash c)\<rparr>"
  obtain t' where t': "setInternal r ?i t = Inr t'" "arena_ok t'" "leaf_ref t' = leaf_ref t" "int_ref t' = int_ref t"
    "lnode t' = lnode t" "\<forall>x. int_ref t x \<longrightarrow> inode t' x = (if x = r then ?i else inode t x)"
    "length (lv t') = length (lv t)" "length (iv t') = length (iv t)" "rt_root t' = rt_root t"
    using setInternal_ok [OF t, of ?i] by blast
  have e: "extends {r} t t'" using t' by (simp add: extends_def)
  have i': "inode t' r = ?i" using t'(6) t(2) by simp
  have fa: "rep t' x (p @ ubits q @ [False]) a \<and> refs t' x a = refs t x a"
    by (rule rep_frame [OF a e]) (use apart in blast)
  have fc: "rep t' y (p @ ubits q @ [True]) c \<and> refs t' y c = refs t y c"
    by (rule rep_frame [OF c e]) (use apart in blast)
  have "rep t' r p (newUrkelInternalDirect H q a c)"
    using fa fc i t'(3-5) t(2) apart by (simp add: newUrkelInternalDirect_def i')
  moreover have "refs t' r (newUrkelInternalDirect H q a c) = insert r (refs t x a \<union> refs t y c)"
    using fa fc i by (simp add: newUrkelInternalDirect_def i')
  ultimately show thesis
    using that t' e nodeHash_rep [OF t(1) a] nodeHash_rep [OF t(1) c] by blast
qed

lemma putAt_descend:
  assumes t: "arena_ok t" and r: "rep t r p (InternalNode q a c h)" "tree_at H p (InternalNode q a c h)"
    and key: "length key = HashSize" "prefix p (kbits key)" and n: "bits_count q key (length p) = ub_size q"
    and b: "b = kbits key ! (length p + ub_size q)"
    and x: "x = (if b then ri_right (inode t r) else ri_left (inode t r))" and ch: "ch = (if b then c else a)"
    and IH: "putAt H x key value (length p + ub_size q + 1) t = (Inr x', t1)"
      "insertNode H ch key value (length p + ub_size q + 1) = Inr ch'" "puts t x (p @ ubits q @ [b]) ch t1 x' ch'"
  shows "\<exists>r' t' n'. putAt H r key value (length p) t = (Inr r', t') \<and>
    insertNode H (InternalNode q a c h) key value (length p) = Inr n' \<and> puts t r p (InternalNode q a c h) t' r' n'"
proof -
  let ?i = "inode t r" and ?y = "if b then ri_left (inode t r) else ri_right (inode t r)" and ?s = "if b then a else c"
  have q: "bits_canon q" and ir: "int_ref t r" using r by simp_all
  note ni = int_ref_isLeaf [OF t ir] and pre = internalPrefix_rep [OF t r(1) q]
  have d: "length p + ub_size q < urkelKeyBits" by (rule tree_at_child_depth [OF r(2)])
  have p1: "arena_ok t1" "rep t1 x' (p @ ubits q @ [b]) ch'" "extends (refs t x ch) t t1"
    "\<forall>z\<in>refs t1 x' ch'. z \<in> refs t x ch \<or> \<not> valid_ref t z" "length (lv t1) \<le> length (lv t) + 1"
    "length (iv t1) \<le> length (iv t) + 1" "rt_root t1 = rt_root t" using IH(3) by (simp_all add: puts_def)
  have sep: "r \<notin> refs t x ch" "r \<notin> refs t ?y ?s" "refs t x ch \<inter> refs t ?y ?s = {}" "rep t ?y (p @ ubits q @ [\<not> b]) ?s"
    "refs t r (InternalNode q a c h) = insert r (refs t x ch \<union> refs t ?y ?s)"
    using r(1) by (cases b; auto simp: x ch)+
  have s1: "rep t1 ?y (p @ ubits q @ [\<not> b]) ?s" "refs t1 ?y ?s = refs t ?y ?s"
    using rep_frame [OF sep(4) p1(3)] sep(3) by (simp_all add: Int_commute)
  have i1: "int_ref t1 r" "inode t1 r = ?i" using p1(3) ir sep(1) by (simp_all add: extends_def)
  have r1: "r \<notin> refs t1 x' ch'" using p1(4) sep(1) ir by (auto simp: valid_ref_def)
  have a1: "refs t1 x' ch' \<inter> refs t ?y ?s = {}" using p1(4) sep(3) refs_valid [OF sep(4)] by blast
  have lr: "leaf_ref t1 (ri_representativeLeaf ?i)"
    "rl_key (lnode t1 (ri_representativeLeaf ?i)) = rl_key (lnode t (ri_representativeLeaf ?i))"
    using p1(3) r(1) by (simp_all add: extends_def)
  let ?xa = "if b then ?y else x'" and ?xc = "if b then x' else ?y" and ?na = "if b then ?s else ch'" and ?nc = "if b then ch' else ?s"
  let ?i' = "if b then ?i\<lparr>ri_right := x'\<rparr> else ?i\<lparr>ri_left := x'\<rparr>"
  have k: "rep t1 ?xa (p @ ubits q @ [False]) ?na" "rep t1 ?xc (p @ ubits q @ [True]) ?nc"
    "r \<notin> refs t1 ?xa ?na \<union> refs t1 ?xc ?nc" "refs t1 ?xa ?na \<inter> refs t1 ?xc ?nc = {}"
    using p1(2) s1 r1 sep(2) a1 by (cases b; auto)+
  have i': "ri_left ?i' = ?xa" "ri_right ?i' = ?xc" "unat (ri_prefixBits ?i') = ub_size q"
    "leaf_ref t1 (ri_representativeLeaf ?i')" "length (rl_key (lnode t1 (ri_representativeLeaf ?i'))) = HashSize"
    "prefix (p @ ubits q) (kbits (rl_key (lnode t1 (ri_representativeLeaf ?i'))))"
    using r(1) lr by (cases b; simp)+
  have sz: "ub_size q < urkelKeyBits" using d by simp
  obtain t' where w:
    "nodeHash t1 ?xa = Inr (node_hash ?na)" "nodeHash t1 ?xc = Inr (node_hash ?nc)"
    "setInternal r (?i'\<lparr>ri_hash := hashUrkelInternal H q (node_hash ?na) (node_hash ?nc)\<rparr>) t1 = Inr t'" "arena_ok t'"
    "rep t' r p (newUrkelInternalDirect H q ?na ?nc)" "extends {r} t1 t'"
    "refs t' r (newUrkelInternalDirect H q ?na ?nc) = insert r (refs t1 ?xa ?na \<union> refs t1 ?xc ?nc)"
    "length (lv t') = length (lv t1)" "length (iv t') = length (iv t1)" "rt_root t' = rt_root t1"
    by (rule writeBack_ok [OF p1(1) i1(1) q sz k i'])
  have dk: "length p + ub_size q < 8 * length key" using d key(1) by (simp add: urkelKeyBits_def)
  have "putAt H r key value (length p) t = (Inr r, t')"
    using ni pre n dk IH(1) w(1-3) ir t b x
    by (subst putAt.simps) (cases b; simp add: sbind_def readTree_def writeTree_def tree_internal_ok urkelHasBit_ok Let_def)
  moreover have "insertNode H (InternalNode q a c h) key value (length p) = Inr (newUrkelInternalDirect H q ?na ?nc)"
    using n dk IH(2) b ch by (cases b) (simp_all add: urkelHasBit_ok Let_def)
  moreover have "extends (refs t r (InternalNode q a c h)) t t'"
    unfolding sep(5) by (rule extends_trans [OF extends_mono [OF p1(3)] w(6)]) auto
  then have "puts t r p (InternalNode q a c h) t' r (newUrkelInternalDirect H q ?na ?nc)"
    using w p1(4-7) s1(2) sep(5) unfolding puts_def by (cases b) auto
  ultimately show ?thesis by blast
qed

lemma putAt_ok:
  assumes "arena_ok t" "length (lv t) < maxNodes" "length (iv t) < maxNodes" "length key = HashSize"
  shows "rep t r p n \<Longrightarrow> tree_at H p n \<Longrightarrow> prefix p (kbits key) \<Longrightarrow>
    \<exists>r' t' n'. putAt H r key value (length p) t = (Inr r', t') \<and>
      insertNode H n key value (length p) = Inr n' \<and> puts t r p n t' r' n'"
proof (induction n arbitrary: r p)
  case (LeafNode k v h)
  then show ?case by (intro putAt_leaf assms)
next
  case (InternalNode q a c h)
  show ?case
  proof (cases "bits_count q key (length p) = ub_size q")
    case False
    with InternalNode.prems show ?thesis by (intro putAt_split assms)
  next
    case True
    let ?b = "kbits key ! (length p + ub_size q)"
    let ?x = "if ?b then ri_right (inode t r) else ri_left (inode t r)" and ?ch = "if ?b then c else a"
    have "length p + ub_size q < 8 * length key"
      using tree_at_child_depth [OF InternalNode.prems(2)] assms(4) by (simp add: urkelKeyBits_def)
    moreover have "prefix (p @ ubits q) (kbits key)"
      using True InternalNode.prems(3) bits_has_iff [of q key "length p"] by (simp add: bits_has_def drop_prefix)
    ultimately have pk: "prefix (p @ ubits q @ [?b]) (kbits key)"
      using prefix_bit [of "p @ ubits q" ?b "kbits key"] by simp
    have len: "length (p @ ubits q @ [?b]) = length p + ub_size q + 1" by simp
    have "\<exists>x' t1 ch'. putAt H ?x key value (length p + ub_size q + 1) t = (Inr x', t1) \<and>
        insertNode H ?ch key value (length p + ub_size q + 1) = Inr ch' \<and> puts t ?x (p @ ubits q @ [?b]) ?ch t1 x' ch'"
      using InternalNode.IH [of _ "p @ ubits q @ [?b]", unfolded len] InternalNode.prems(1,2) pk
      by (cases ?b) simp_all
    then show ?thesis
      using putAt_descend [OF assms(1) InternalNode.prems(1,2) assms(4) InternalNode.prems(3) True refl refl refl] by blast
  qed
qed

section \<open>The whole tree\<close>

definition tree_rep :: "hashers \<Rightarrow> urkelRootTree \<Rightarrow> urkelNode option \<Rightarrow> bool" where
  "tree_rep H t root \<longleftrightarrow> arena_ok t \<and> root_ok H root \<and>
     (case root of None \<Rightarrow> rt_root t = 0 | Some n \<Rightarrow> rep t (rt_root t) [] n)"

lemma rootHash_rep: "tree_rep H t root \<Longrightarrow> rootHash t = Inr (root_hash root)"
  by (cases root) (auto simp: tree_rep_def rootHash_def root_hash_def nodeHash_def [of _ 0] dest: nodeHash_rep)

lemma rep_root: "rep (t\<lparr>rt_root := r\<rparr>) x p n = rep t x p n \<and> refs (t\<lparr>rt_root := r\<rparr>) x n = refs t x n"
  by (induction n arbitrary: x p) (simp_all add: leaf_ref_def int_ref_def lnode_def inode_def)

lemma arena_root: "arena_ok (t\<lparr>rt_root := r\<rparr>) = arena_ok t"
  by (simp add: arena_ok_def)

lemma tree_put_ok:
  assumes t: "tree_rep H t root" "length (lv t) < maxNodes" "length (iv t) < maxNodes" and key: "length key = HashSize"
  shows "\<exists>t' n. tree_put H key value t = (Inr (), t') \<and> insertUrkel H root key value 0 = Inr n \<and>
    tree_rep H t' (Some n) \<and> length (lv t') \<le> length (lv t) + 1 \<and> length (iv t') \<le> length (iv t) + 1"
proof (cases root)
  case None
  then have z: "rt_root t = 0" "arena_ok t" using t(1) by (simp_all add: tree_rep_def)
  obtain l t1 where l: "addLeaf H key value t = (Inr l, t1)" "arena_ok t1" "leaf_ref t1 l"
    "lnode t1 l = \<lparr>rl_key = key, rl_hash = hashUrkelValue H key value\<rparr>"
    "length (lv t1) = length (lv t) + 1" "length (iv t1) = length (iv t)"
    using addLeaf_ok [OF z(2) t(2), of H key "value"] by blast
  have "tree_put H key value t = (Inr (), t1\<lparr>rt_root := l\<rparr>)"
    using z l(1) by (subst tree_put_def, subst putAt.simps) (simp add: sbind_def writeTree_def)
  moreover have "rep (t1\<lparr>rt_root := l\<rparr>) l [] (newUrkelLeaf H key value)"
    unfolding rep_root [THEN conjunct1] using l(3,4) by (simp add: newUrkelLeaf_def)
  ultimately show ?thesis using None l key by (simp add: insertUrkel_def tree_rep_def arena_root)
next
  case (Some n0)
  then have n0: "arena_ok t" "rep t (rt_root t) [] n0" "tree_at H [] n0" using t(1) by (simp_all add: tree_rep_def)
  obtain r t1 n where r: "putAt H (rt_root t) key value 0 t = (Inr r, t1)" "insertNode H n0 key value 0 = Inr n"
    "puts t (rt_root t) [] n0 t1 r n"
    using putAt_ok [OF n0(1) t(2,3) key n0(2,3), of "value"] by auto
  have "tree_at H [] n" using insertNode_ok [OF n0(3) key, of "value"] r(2) by simp
  moreover have "tree_put H key value t = (Inr (), t1\<lparr>rt_root := r\<rparr>)"
    using r(1) by (simp add: tree_put_def sbind_def writeTree_def)
  moreover have "rep (t1\<lparr>rt_root := r\<rparr>) r [] n"
    unfolding rep_root [THEN conjunct1] using r(3) by (simp add: puts_def)
  ultimately show ?thesis using Some r(2,3) by (simp add: insertUrkel_def tree_rep_def puts_def arena_root)
qed

lemma putLeaves_ok:
  assumes "tree_rep H t root" "length (lv t) + length leaves \<le> maxNodes" "length (iv t) + length leaves \<le> maxNodes"
    and "\<And>k v. (k, v) \<in> set leaves \<Longrightarrow> length k = HashSize"
  shows "\<exists>t' root'. putLeaves H leaves t = (Inr (), t') \<and> insertAll H root leaves = Inr root' \<and> tree_rep H t' root'"
  using assms
proof (induction leaves arbitrary: t root)
  case (Cons kv leaves)
  obtain k v where kv: "kv = (k, v)" by fastforce
  obtain t1 n where t1: "tree_put H k v t = (Inr (), t1)" "insertUrkel H root k v 0 = Inr n" "tree_rep H t1 (Some n)"
    "length (lv t1) \<le> length (lv t) + 1" "length (iv t1) \<le> length (iv t) + 1"
    using tree_put_ok [OF Cons.prems(1), of k v] Cons.prems(2-4) kv by auto
  then obtain t' root' where "putLeaves H leaves t1 = (Inr (), t')" "insertAll H (Some n) leaves = Inr root'" "tree_rep H t' root'"
    using Cons.IH [of t1 "Some n"] Cons.prems(2-4) by auto
  with t1 kv show ?case by (simp add: sbind_def)
qed (simp add: readTree_def)

lemma tree_rep_reset:
  assumes "store_ok (rt_leaves t)" "store_ok (rt_internals t)"
  shows "tree_rep H (t\<lparr>rt_leaves := store_reset (rt_leaves t), rt_internals := store_reset (rt_internals t), rt_root := 0\<rparr>) None"
  using assms by (simp add: tree_rep_def arena_ok_def store_reset_def store_ok_def elements_def)

text \<open>C8: The compact tree computes the name root. Rebuilt from any leaves with distinct 32-byte keys
  (fewer than \<open>2\<^sup>3\<^sup>1\<close> of them), in whatever order they come and whatever the chunks held before, it
  never panics or fails and its root hash is \<open>calcUrkelRoot\<close> of the leaves.\<close>

theorem compact_rebuild_root:
  assumes "store_ok (rt_leaves t)" "store_ok (rt_internals t)" "length leaves < 2 ^ 31"
    and "distinct (map fst leaves)" "\<forall>(k, v)\<in>set leaves. length k = HashSize" "set leaves' = set leaves"
    and "distinct (map fst leaves')"
  shows "\<exists>t'. tree_rebuild H leaves t = (Inr (), t') \<and> rootHash t' = calcUrkelRoot H leaves'"
proof -
  let ?t = "t\<lparr>rt_leaves := store_reset (rt_leaves t), rt_internals := store_reset (rt_internals t), rt_root := 0\<rparr>"
  have z: "length (lv ?t) = 0" "length (iv ?t) = 0" by (simp_all add: store_reset_def elements_def)
  have k: "length k = HashSize" if "(k, v) \<in> set leaves" for k v using assms(5) that by auto
  obtain t' root where t': "putLeaves H leaves ?t = (Inr (), t')" "insertAll H None leaves = Inr root" "tree_rep H t' root"
    using putLeaves_ok [of H ?t None leaves, OF tree_rep_reset [OF assms(1,2)] _ _ k] z assms(3) unfolding maxNodes_def
    by fastforce
  obtain root2 where r2: "buildUrkelTree H leaves' = Inr root2" "root_ok H root2" "contents root2 = map_of leaves'"
    using buildUrkelTree_ok [of leaves' H] assms(5-7) by auto
  have "contents root = map_of (rev leaves)"
    using insertAll_ok [of H None leaves] assms(5) t'(2) by auto
  also have "\<dots> = map_of leaves'" using assms(4,6,7) by (intro map_of_reorder) (simp_all add: rev_map [symmetric])
  finally have "root = root2" using t'(3) r2 by (intro root_unique [of H]) (simp_all add: tree_rep_def)
  with t' r2 rootHash_rep [OF t'(3)] show ?thesis
    by (simp add: tree_rebuild_def sbind_def writeTree_def calcUrkelRoot_def)
qed

definition emptyRootTree :: urkelRootTree where
  "emptyRootTree = \<lparr>rt_root = 0, rt_leaves = \<lparr>st_chunks = [], st_count = 0\<rparr>,
     rt_internals = \<lparr>st_chunks = [], st_count = 0\<rparr>\<rparr>"

lemma ex_keys: "length ex_key1 = HashSize" "length ex_key2 = HashSize" "ex_key1 \<noteq> ex_key2"
  by code_simp+

theorem compact_rebuild_root_witness:
  "\<exists>t'. tree_rebuild ex_hashes [(ex_key2, [5]), (ex_key1, [4])] emptyRootTree = (Inr (), t') \<and>
    rootHash t' = calcUrkelRoot ex_hashes [(ex_key1, [4]), (ex_key2, [5])]"
  using ex_keys by (intro compact_rebuild_root) (auto simp: emptyRootTree_def store_ok_def)

text \<open>C9: Incremental updates of the compact tree agree with recomputing the root from scratch. When
  it represents a name tree, putting a key keeps it representing one whose contents are updated at
  that key alone, and the new root hash is \<open>calcUrkelRoot\<close> of any list of the updated leaves.\<close>

theorem compact_put_root:
  assumes "tree_rep H t root" "length (elements (rt_leaves t)) < maxNodes" "length (elements (rt_internals t)) < maxNodes"
    and "length key = HashSize" "distinct (map fst leaves)" "\<forall>(k, v)\<in>set leaves. length k = HashSize"
    and "map_of leaves = (contents root)(key \<mapsto> value)"
  shows "\<exists>t' root'. tree_put H key value t = (Inr (), t') \<and> tree_rep H t' root' \<and>
    contents root' = (contents root)(key \<mapsto> value) \<and> rootHash t' = calcUrkelRoot H leaves"
proof -
  obtain t' n where t': "tree_put H key value t = (Inr (), t')" "insertUrkel H root key value 0 = Inr n" "tree_rep H t' (Some n)"
    using tree_put_ok [OF assms(1-4), of "value"] by blast
  have n: "tree_at H [] n" "umap n = (contents root)(key \<mapsto> value)"
    using insertUrkel_ok [of H root key "value"] assms(1,4) t'(2) by (auto simp: tree_rep_def)
  obtain root2 where r2: "buildUrkelTree H leaves = Inr root2" "root_ok H root2" "contents root2 = map_of leaves"
    using buildUrkelTree_ok [of leaves H] assms(5,6) by auto
  have "Some n = root2" by (rule root_unique [of H]) (use n(1) r2 in \<open>simp_all add: n(2) assms(7)\<close>)
  then have "rootHash t' = calcUrkelRoot H leaves"
    using rootHash_rep [OF t'(3)] r2(1) by (simp add: calcUrkelRoot_def)
  with t' n(2) show ?thesis by (intro exI [of _ t'] exI [of _ "Some n"]) simp
qed

theorem compact_put_root_witness:
  "\<exists>t' root'. tree_put ex_hashes ex_key1 [4] emptyRootTree = (Inr (), t') \<and> tree_rep ex_hashes t' root' \<and>
    contents root' = [ex_key1 \<mapsto> [4]] \<and> rootHash t' = calcUrkelRoot ex_hashes [(ex_key1, [4])]"
  using compact_put_root [of ex_hashes emptyRootTree None ex_key1 "[(ex_key1, [4])]" "[4]"] ex_keys(1)
  by (simp add: tree_rep_def arena_ok_def emptyRootTree_def store_ok_def elements_def maxNodes_def)

end
