(* ===== verification/Work_Math.thy ===== *)
theory Work_Math
  imports Prelude
begin

text \<open>
  Difficulty targets and work (src/blockchain/internal/workmath): the compact 32-bit form of a
  target, the conversion in both directions, and the work a block with given difficulty bits
  stands for. A \<open>big.Int\<close> is an \<open>int\<close>; its \<open>Bytes\<close> are the bytes of its absolute value and
  \<open>Bits()[0]\<close> is the lowest 64-bit word of that value, of which the code keeps 32 bits. The
  lemmas give what the compact form keeps of a target: its exact value when it fits in 23 bits
  after the exponent, and a value below it by less than one part in \<open>2\<^sup>1\<^sup>5\<close> otherwise.
\<close>

unbundle bit_operations_syntax

section \<open>Compact targets\<close>

definition HashToBig :: "hash \<Rightarrow> int" where
  "HashToBig h = foldl (\<lambda>acc b. acc * 256 + uint b) 0 h"

definition CompactToBig :: "u32 \<Rightarrow> int" where
  "CompactToBig compact =
     (let mantissa = compact AND 0x007fffff;
          isNegative = compact AND 0x00800000 \<noteq> 0;
          exponent = unat (drop_bit 24 compact);
          bn = (if exponent \<le> 3 then uint (drop_bit (8 * (3 - exponent)) mantissa)
                else push_bit (8 * (exponent - 3)) (uint mantissa)) in
      if isNegative then - bn else bn)"

fun byteLen :: "nat \<Rightarrow> nat" where
  "byteLen n = (if n = 0 then 0 else Suc (byteLen (n div 256)))"

declare byteLen.simps [simp del]

definition BigToCompact :: "int \<Rightarrow> u32" where
  "BigToCompact n =
     (if n = 0 then 0
      else
        let exponent = byteLen (nat \<bar>n\<bar>);
            mantissa = (if exponent \<le> 3
                        then push_bit (8 * (3 - exponent)) (word_of_int \<bar>n\<bar> :: u32)
                        else word_of_int \<bar>drop_bit (8 * (exponent - 3)) n\<bar>);
            (mantissa, exponent) = (if mantissa AND 0x00800000 \<noteq> 0
                                    then (drop_bit 8 mantissa, exponent + 1)
                                    else (mantissa, exponent));
            compact = push_bit 24 (of_nat exponent) OR mantissa in
        if n < 0 then compact OR 0x00800000 else compact)"

definition CalcWork :: "u32 \<Rightarrow> int" where
  "CalcWork bits =
     (let difficultyNum = CompactToBig bits in
      if difficultyNum \<le> 0 then 0 else 2 ^ 256 div (difficultyNum + 1))"

section \<open>The packed word\<close>

lemma unat_drop_bit: "unat (drop_bit k (c :: u32)) = unat c div 2 ^ k"
proof -
  have "take_bit 32 (unat c) = unat c" using unat_less [of c] by (intro take_bit_nat_eq_self) simp
  then show ?thesis by (subst unsigned_drop_bit_eq) (simp add: drop_bit_eq_div)
qed

lemma unat_mantissa: "unat (c AND 0x007fffff :: u32) = unat c mod 2 ^ 23"
proof -
  have m: "c AND 0x007fffff = take_bit 23 c"
    by (simp only: take_bit_eq_mask mask_eq_exp_minus_1) simp
  show ?thesis unfolding m unsigned_take_bit_eq by (rule take_bit_eq_mod)
qed

lemma sign_bit: "(c AND 0x00800000 :: u32) \<noteq> 0 \<longleftrightarrow> bit c 23"
proof -
  have "(0x00800000 :: u32) = 2 ^ 23" by simp
  then show ?thesis by (simp only: and_exp_eq_0_iff_not_bit not_not)
qed

lemma bit_unat: "bit (c :: u32) k \<longleftrightarrow> odd (unat c div 2 ^ k)"
proof -
  have "bit c k \<longleftrightarrow> bit (unat c) k"
    using bit_imp_le_length [of c k] by (auto simp: bit_unsigned_iff)
  then show ?thesis by (simp only: bit_iff_odd [of "unat c" k])
qed

lemma bit_23_small: "unat (c :: u32) < 2 ^ 24 \<Longrightarrow> bit c 23 \<longleftrightarrow> 2 ^ 23 \<le> unat c"
proof -
  assume l: "unat c < 2 ^ 24"
  then have "unat c div 2 ^ 23 \<le> 1" by simp
  moreover have "unat c div 2 ^ 23 = 0 \<longleftrightarrow> unat c < 2 ^ 23" by (simp add: div_eq_0_iff)
  ultimately show ?thesis unfolding bit_unat by (cases "unat c div 2 ^ 23 = 0") (auto simp: le_Suc_eq)
qed

lemma bit_23_field:
  assumes "unat (c :: u32) = e * 2 ^ 24 + m" and "m < 2 ^ 23"
  shows "\<not> bit c 23"
proof -
  have "unat c div 2 ^ 23 = 2 * e" using assms by simp
  then show ?thesis by (simp only: bit_unat) simp
qed

lemma CompactToBig_fields:
  assumes "unat c = e * 2 ^ 24 + m" and "m < 2 ^ 23"
  shows "CompactToBig c = (if e \<le> 3 then int (m div 256 ^ (3 - e)) else int m * 256 ^ (e - 3))"
proof -
  have e: "unat (drop_bit 24 c) = e"
    using assms by (simp add: unat_drop_bit)
  have m: "unat (c AND 0x007fffff) = m"
  proof -
    have "(e * 2 ^ 24 + m) mod 2 ^ 23 = (2 * e * 2 ^ 23 + m) mod 2 ^ 23" by (simp add: mult.commute)
    also have "\<dots> = m" using assms(2) by (simp only: mod_mult_self3 mod_less)
    finally show ?thesis by (simp only: unat_mantissa assms(1))
  qed
  have p: "(2 :: nat) ^ (8 * k) = 256 ^ k" for k by (simp add: power_mult)
  have q: "(2 :: int) ^ (8 * k) = 256 ^ k" for k by (simp add: power_mult)
  have d: "uint (drop_bit k (c AND 0x007fffff)) = int (m div 2 ^ k)" for k
    by (simp only: uint_nat unat_drop_bit m)
  show ?thesis
    unfolding CompactToBig_def Let_def sign_bit e d
    using bit_23_field [OF assms] by (simp add: uint_nat m push_bit_eq_mult p q)
qed

section \<open>Lengths\<close>

lemma byteLen_le: "byteLen n \<le> k \<longleftrightarrow> n < 256 ^ k"
proof (induction k arbitrary: n)
  case 0
  then show ?case by (subst byteLen.simps) simp
next
  case (Suc k)
  have "byteLen n \<le> Suc k \<longleftrightarrow> n = 0 \<or> byteLen (n div 256) \<le> k"
    by (subst byteLen.simps) simp
  also have "\<dots> \<longleftrightarrow> n < 256 ^ Suc k"
    unfolding Suc by (auto simp: div_less_iff_less_mult)
  finally show ?case .
qed

lemma byteLen_bounds:
  assumes "0 < n"
  shows "0 < byteLen n" "256 ^ (byteLen n - 1) \<le> n" "n < 256 ^ byteLen n"
proof -
  show z: "0 < byteLen n" using assms by (subst byteLen.simps) simp
  show "n < 256 ^ byteLen n" using byteLen_le [of n "byteLen n"] by simp
  show "256 ^ (byteLen n - 1) \<le> n" using byteLen_le [of n "byteLen n - 1"] z by (simp add: not_less [symmetric])
qed

lemma pow256_split: "\<not> k \<le> 3 \<Longrightarrow> (256 :: nat) ^ k = 256 ^ (k - 3) * 256 ^ 3"
  unfolding power_add [symmetric] by simp

text \<open>The mantissa before normalization: the leading three bytes.\<close>

definition lead :: "nat \<Rightarrow> nat" where
  "lead n = (if byteLen n \<le> 3 then n * 256 ^ (3 - byteLen n) else n div 256 ^ (byteLen n - 3))"

lemma lead_bounds:
  assumes "0 < n"
  shows "2 ^ 16 \<le> lead n" "lead n < 2 ^ 24"
proof -
  note b = byteLen_bounds [OF assms]
  have "256 ^ 2 \<le> lead n \<and> lead n < 256 ^ 3"
  proof (cases "byteLen n \<le> 3")
    case True
    then have "256 ^ (byteLen n - 1) * 256 ^ (3 - byteLen n) = (256 :: nat) ^ 2"
      "256 ^ byteLen n * 256 ^ (3 - byteLen n) = (256 :: nat) ^ 3"
      using b(1) by (simp_all flip: power_add)
    moreover have "256 ^ (byteLen n - 1) * 256 ^ (3 - byteLen n) \<le> n * 256 ^ (3 - byteLen n)"
      "n * 256 ^ (3 - byteLen n) < 256 ^ byteLen n * 256 ^ (3 - byteLen n)"
      using b by simp_all
    ultimately show ?thesis using True by (simp only: lead_def if_True)
  next
    case False
    then have "2 + (byteLen n - 3) = byteLen n - 1" "3 + (byteLen n - 3) = byteLen n" by simp_all
    then have "256 ^ 2 * 256 ^ (byteLen n - 3) = (256 :: nat) ^ (byteLen n - 1)"
      "256 ^ 3 * 256 ^ (byteLen n - 3) = (256 :: nat) ^ byteLen n"
      by (simp_all only: power_add [symmetric])
    then have "256 ^ 2 * 256 ^ (byteLen n - 3) \<le> n" "n < 256 ^ 3 * 256 ^ (byteLen n - 3)"
      using b(2,3) by (simp_all only:)
    then show ?thesis using False by (simp add: lead_def less_eq_div_iff_mult_less_eq div_less_iff_less_mult)
  qed
  then show "2 ^ 16 \<le> lead n" "lead n < 2 ^ 24" by simp_all
qed

lemma lead_unique:
  assumes "n * 256 ^ 3 = M * 256 ^ k" and "2 ^ 16 \<le> M" and "M < 2 ^ 24"
  shows "0 < n \<and> byteLen n = k \<and> lead n = M"
proof -
  have "256 ^ 2 * 256 ^ k \<le> n * 256 ^ 3" "n * 256 ^ 3 < 256 ^ 3 * 256 ^ k"
    using assms by (simp_all add: mult_le_mono)
  then have b: "256 ^ k \<le> n * 256" "n < 256 ^ k" by (simp_all add: mult.commute)
  then have n: "0 < n" by (cases n) simp_all
  have k: "byteLen n = k"
  proof (cases k)
    case (Suc j)
    with b show ?thesis using byteLen_le [of n k] byteLen_le [of n j] by simp
  qed (use b n in simp)
  have "lead n = M"
  proof (cases "k \<le> 3")
    case True
    then have "lead n * 256 ^ k = n * 256 ^ 3" by (simp add: lead_def k mult.assoc flip: power_add)
    then show ?thesis using assms(1) by simp
  next
    case False
    have "M * 256 ^ k = M * 256 ^ (k - 3) * 256 ^ 3" by (simp only: pow256_split [OF False] mult.assoc)
    then have "n * 256 ^ 3 = M * 256 ^ (k - 3) * 256 ^ 3" using assms(1) by (simp only:)
    then have "n div 256 ^ (k - 3) = M" by simp
    then show ?thesis using False by (simp only: lead_def k if_False)
  qed
  with n k show ?thesis by simp
qed

lemma unat_BigToCompact:
  assumes "0 < n" and "byteLen n < 255"
  shows "unat (BigToCompact (int n)) =
    (if 2 ^ 23 \<le> lead n then (byteLen n + 1) * 2 ^ 24 + lead n div 256 else byteLen n * 2 ^ 24 + lead n)"
proof -
  let ?e = "byteLen n"
  define m :: u32 where "m = (if ?e \<le> 3 then push_bit (8 * (3 - ?e)) (word_of_int \<bar>int n\<bar>)
    else word_of_int \<bar>drop_bit (8 * (?e - 3)) (int n)\<bar>)"
  have p: "(2 :: nat) ^ (8 * k) = 256 ^ k" for k by (simp add: power_mult)
  have m: "m = of_nat (lead n)"
  proof (cases "?e \<le> 3")
    case True
    then show ?thesis by (simp add: m_def lead_def push_bit_eq_mult power_mult)
  next
    case False
    have "drop_bit (8 * (?e - 3)) (int n) = int (n div 256 ^ (?e - 3))"
      by (simp add: drop_bit_eq_div power_mult zdiv_int)
    with False show ?thesis by (simp only: m_def lead_def if_False abs_of_nat of_int_of_nat_eq)
  qed
  note l = lead_bounds [OF assms(1)]
  have um: "unat m = lead n" using l(2) by (simp add: m unat_of_nat)
  have pack: "unat (push_bit 24 (of_nat e) OR w :: u32) = e * 2 ^ 24 + unat w"
    if "e < 256" "unat w < 2 ^ 24" for e w
  proof -
    have "(push_bit 24 (of_nat e) :: u32) = of_nat (push_bit 24 e)" by (simp add: push_bit_of_nat)
    then have "unat (push_bit 24 (of_nat e) :: u32) = push_bit 24 e"
      using that(1) by (simp only: unat_of_nat) (simp add: push_bit_eq_mult)
    then have "unat (push_bit 24 (of_nat e) OR w :: u32) = push_bit 24 e OR unat w"
      by (simp only: unsigned_or_eq)
    also have "\<dots> = push_bit 24 e + unat w"
    proof (rule disjunctive_add [symmetric])
      fix i
      have "take_bit 24 (unat w) = unat w" using that(2) by (simp add: take_bit_eq_mod)
      then have "bit (unat w) i \<Longrightarrow> i < 24" by (metis bit_take_bit_iff)
      then show "\<not> bit (push_bit 24 e) i \<or> \<not> bit (unat w) i" by (auto simp: bit_push_bit_iff)
    qed
    finally show ?thesis by (simp add: push_bit_eq_mult)
  qed
  have b: "bit m 23 \<longleftrightarrow> 2 ^ 23 \<le> lead n" using bit_23_small [of m] um l(2) by simp
  have d: "unat (drop_bit 8 m) = lead n div 256"
    by (simp add: unat_drop_bit um)
  have "BigToCompact (int n) = (if bit m 23 then push_bit 24 (of_nat (?e + 1)) OR drop_bit 8 m
    else push_bit 24 (of_nat ?e) OR m)"
    using assms(1) by (simp add: BigToCompact_def Let_def sign_bit flip: m_def)
  moreover have "unat (push_bit 24 (of_nat (?e + 1)) OR drop_bit 8 m) = (?e + 1) * 2 ^ 24 + lead n div 256"
    using pack [of "?e + 1" "drop_bit 8 m"] assms(2) l(2) d by simp
  moreover have "unat (push_bit 24 (of_nat ?e) OR m) = ?e * 2 ^ 24 + lead n"
    using pack [of ?e m] assms(2) l(2) um by simp
  ultimately show ?thesis by (simp only: b if_split) simp
qed

lemma CompactToBig_BigToCompact:
  assumes "0 < n" and "byteLen n < 255"
  shows "CompactToBig (BigToCompact (int n)) =
    (if 2 ^ 23 \<le> lead n
     then if byteLen n \<le> 2 then int n else int (lead n div 256) * 256 ^ (byteLen n - 2)
     else if byteLen n \<le> 3 then int n else int (lead n) * 256 ^ (byteLen n - 3))"
proof -
  note l = lead_bounds [OF assms(1)] and u = unat_BigToCompact [OF assms]
  show ?thesis
  proof (cases "2 ^ 23 \<le> lead n")
    case True
    have "lead n div 256 div 256 ^ (2 - byteLen n) = n" if "byteLen n \<le> 2"
    proof -
      have "lead n = n * 256 ^ (2 - byteLen n) * 256"
        using that by (simp add: lead_def numeral_3_eq_3 numeral_2_eq_2 Suc_diff_le)
      then show ?thesis by simp
    qed
    then show ?thesis
      using True CompactToBig_fields [of "BigToCompact (int n)" "byteLen n + 1" "lead n div 256"] u l(2)
      by (simp add: le_diff_conv diff_diff_add split: if_split_asm)
  next
    case False
    have "lead n div 256 ^ (3 - byteLen n) = n" if "byteLen n \<le> 3"
      using that by (simp add: lead_def)
    then show ?thesis
      using False CompactToBig_fields [of "BigToCompact (int n)" "byteLen n" "lead n"] u
      by (simp split: if_split_asm)
  qed
qed

lemma div_times_error:
  fixes x y :: int
  assumes "2 ^ 15 \<le> x div y" and "0 < y"
  shows "0 < x div y * y" "x div y * y \<le> x" "(x - x div y * y) * 2 ^ 15 < x"
proof -
  have x: "x = x div y * y + x mod y" by simp
  have m: "0 \<le> x mod y" "x mod y < y" using assms(2) by simp_all
  have p: "2 ^ 15 * y \<le> x div y * y" using assms by (intro mult_right_mono) simp_all
  then show "0 < x div y * y" using assms(2) by simp
  show "x div y * y \<le> x" using x m by linarith
  have "(x - x div y * y) * 2 ^ 15 = x mod y * 2 ^ 15" by (simp only: minus_div_mult_eq_mod)
  also have "\<dots> < y * 2 ^ 15" using m(2) by simp
  also have "\<dots> \<le> x div y * y" using p by (simp add: mult.commute)
  also have "\<dots> \<le> x" using x m by linarith
  finally show "(x - x div y * y) * 2 ^ 15 < x" .
qed

lemma compact_value:
  assumes "0 < n" and "byteLen n < 255"
  obtains (exact) "CompactToBig (BigToCompact (int n)) = int n"
  | (rounded) y where "0 < y" "2 ^ 15 \<le> int n div y" "CompactToBig (BigToCompact (int n)) = int n div y * y"
proof -
  note l = lead_bounds [OF assms(1)] and v = CompactToBig_BigToCompact [OF assms]
  have pow: "(256 :: int) ^ k = int (256 ^ k)" for k by simp
  consider "2 ^ 23 \<le> lead n" "byteLen n \<le> 2" | "\<not> 2 ^ 23 \<le> lead n" "byteLen n \<le> 3"
    | "2 ^ 23 \<le> lead n" "\<not> byteLen n \<le> 2" | "\<not> 2 ^ 23 \<le> lead n" "\<not> byteLen n \<le> 3" by blast
  then show thesis
  proof cases
    case 3
    then have "byteLen n - 2 = Suc (byteLen n - 3)" by simp
    then have "256 ^ (byteLen n - 2) = (256 :: nat) ^ (byteLen n - 3) * 256" by simp
    then have d: "lead n div 256 = n div 256 ^ (byteLen n - 2)"
      using 3(2) by (cases "byteLen n = 3") (simp_all add: lead_def div_mult2_eq)
    have "2 ^ 15 \<le> lead n div 256" using 3(1) by simp
    then have "2 ^ 15 \<le> int (n div 256 ^ (byteLen n - 2))" unfolding d by simp
    then show ?thesis using 3 v by (intro rounded [of "256 ^ (byteLen n - 2)"]) (simp_all add: d zdiv_int)
  next
    case 4
    then have d: "lead n = n div 256 ^ (byteLen n - 3)" by (simp add: lead_def)
    have "2 ^ 15 \<le> lead n" using l(1) by simp
    then have "2 ^ 15 \<le> int (n div 256 ^ (byteLen n - 3))" unfolding d by simp
    then show ?thesis using 4 v by (intro rounded [of "256 ^ (byteLen n - 3)"]) (simp_all add: d zdiv_int)
  qed (use v exact in simp_all)
qed

lemma compact_error:
  assumes "0 < n" and "n < 256 ^ 254"
  shows "0 < CompactToBig (BigToCompact n) \<and> CompactToBig (BigToCompact n) \<le> n
    \<and> (n - CompactToBig (BigToCompact n)) * 2 ^ 15 < n"
proof -
  obtain k where k: "n = int k" "0 < k" using assms(1) by (metis zero_less_imp_eq_int)
  have "k < 256 ^ 254" using assms(2) unfolding k(1) by (simp only: of_nat_less_iff [where ?'a = int, symmetric]) simp
  then have "byteLen k < 255" using byteLen_le [of k 254] by simp
  with k(2) show ?thesis
    by (cases rule: compact_value) (use k in \<open>simp_all only: div_times_error [of "int k"]\<close>, simp)
qed

section \<open>Properties\<close>

text \<open>C30: The compact form never overstates a target and loses less than one part in \<open>2\<^sup>1\<^sup>5\<close>: every
  positive target below \<open>256\<^sup>2\<^sup>5\<^sup>4\<close> encodes to bits that decode to a positive target, at most the
  original, whose error is below the original divided by \<open>2\<^sup>1\<^sup>5\<close>.\<close>

theorem compact_target_error:
  assumes "0 < n" and "n < 256 ^ 254"
  shows "0 < CompactToBig (BigToCompact n) \<and> CompactToBig (BigToCompact n) \<le> n
    \<and> (n - CompactToBig (BigToCompact n)) * 2 ^ 15 < n"
  using compact_error [OF assms] .

theorem compact_target_error_witness:
  "0 < CompactToBig (BigToCompact 0x123456789a) \<and> CompactToBig (BigToCompact 0x123456789a) \<le> 0x123456789a
    \<and> (0x123456789a - CompactToBig (BigToCompact 0x123456789a)) * 2 ^ 15 < 0x123456789a"
  by (intro compact_target_error) simp_all

definition canonicalBits :: "u32 \<Rightarrow> bool" where
  "canonicalBits c \<longleftrightarrow>
     (let e = unat c div 2 ^ 24; m = unat c mod 2 ^ 24 in
      0 < e \<and> e < 255 \<and> 2 ^ 15 \<le> m \<and> m < 2 ^ 23 \<and> m mod 256 ^ (3 - e) = 0)"

text \<open>Difficulty bits in normal form (a mantissa of 16 to 23 bits without bits the exponent drops)
  are a fixed point: decoding them to a target and encoding the target gives the same bits.\<close>

lemma compact_bits_roundtrip:
  assumes "canonicalBits c"
  shows "BigToCompact (CompactToBig c) = c"
proof -
  define e m where "e = unat c div 2 ^ 24" and "m = unat c mod 2 ^ 24"
  have c: "unat c = e * 2 ^ 24 + m" by (simp add: e_def m_def)
  have h: "0 < e" "e < 255" "2 ^ 15 \<le> m" "m < 2 ^ 23" "m mod 256 ^ (3 - e) = 0"
    using assms by (simp_all add: canonicalBits_def Let_def e_def m_def)
  define n where "n = (if e \<le> 3 then m div 256 ^ (3 - e) else m * 256 ^ (e - 3))"
  have n: "CompactToBig c = int n"
    using CompactToBig_fields [OF c h(4)] by (simp add: n_def)
  have s: "n * 256 ^ 3 = m * 256 ^ e"
  proof (cases "e \<le> 3")
    case True
    then have "m = n * 256 ^ (3 - e)" using h(5) by (auto simp: n_def)
    then have "m * 256 ^ e = n * (256 ^ (3 - e) * 256 ^ e)" by (simp only: mult.assoc)
    then show ?thesis using True by (simp flip: power_add)
  next
    case False
    then have "n * 256 ^ 3 = m * (256 ^ (e - 3) * 256 ^ 3)" by (simp only: n_def if_False mult.assoc)
    then show ?thesis by (simp only: pow256_split [OF False])
  qed
  have "m * 256 ^ e = m * 256 * 256 ^ (e - 1)" using h(1) by (cases e) simp_all
  then have "0 < n \<and> (if 2 ^ 16 \<le> m then byteLen n = e \<and> lead n = m else byteLen n = e - 1 \<and> lead n = m * 256)"
    using lead_unique [of n m e] lead_unique [of n "m * 256" "e - 1"] s h(3,4) by simp
  then have "unat (BigToCompact (int n)) = unat c"
    using unat_BigToCompact [of n] h c by (simp split: if_split_asm)
  then show ?thesis by (simp only: n word_unat_eq_iff)
qed

text \<open>The work of a block is the expected number of hashes that meet its target.\<close>

lemma calc_work_exact:
  assumes "0 < CompactToBig bits"
  shows "CalcWork bits * (CompactToBig bits + 1) \<le> 2 ^ 256 \<and> 2 ^ 256 < (CalcWork bits + 1) * (CompactToBig bits + 1)"
proof -
  let ?d = "CompactToBig bits + 1"
  have "(2 :: int) ^ 256 = 2 ^ 256 div ?d * ?d + 2 ^ 256 mod ?d" by (rule div_mult_mod_eq [symmetric])
  moreover have "0 \<le> 2 ^ 256 mod ?d" "2 ^ 256 mod ?d < ?d" using assms by (intro pos_mod_sign pos_mod_bound; simp)+
  ultimately have "2 ^ 256 div ?d * ?d \<le> 2 ^ 256" "2 ^ 256 < (2 ^ 256 div ?d + 1) * ?d"
    unfolding distrib_right mult_1_left by linarith+
  then show ?thesis using assms by (simp add: CalcWork_def Let_def del: power_numeral)
qed

end
