(* ===== verification/Block_Node.thy ===== *)
theory Block_Node
  imports Wire_Block Work_Math
begin

text \<open>
  The nodes of the block tree and the in-memory block index (src/blockchain/blockindex.go). A node
  refers to its parent and, to go back quickly, to one earlier ancestor; the fields a node never
  changes after it is made are its data, while the validation status, which changes, is kept by
  the index under the node's hash. Two pointers are equal when the nodes they point to are, since
  the index holds one node for each hash. The lemmas show that following the skip pointers finds
  the same node as walking the parents, and that the past median time never goes back.
\<close>

section \<open>Nodes\<close>

text \<open>\<open>int32\<close> arithmetic wraps around.\<close>

definition int32 :: "int \<Rightarrow> int" where
  "int32 x = sint (word_of_int x :: 32 word)"

record nodeData =
  bn_hash :: hash
  bn_workSum :: int
  bn_height :: int
  bn_version :: int
  bn_bits :: u32
  bn_nonce :: u32
  bn_timestamp :: int
  bn_merkleRoot :: hash
  bn_nameRoot :: hash
  bn_extraNonce :: bytes
  bn_reservedRoot :: hash
  bn_witnessRoot :: hash
  bn_mask :: hash

datatype blockNode = BlockNode (bn_parent: "blockNode option") (bn_ancestor: "blockNode option") (bn_data: nodeData)

abbreviation height_of :: "blockNode \<Rightarrow> int" where "height_of n \<equiv> bn_height (bn_data n)"
abbreviation hash_of :: "blockNode \<Rightarrow> hash" where "hash_of n \<equiv> bn_hash (bn_data n)"
abbreviation time_of :: "blockNode \<Rightarrow> int" where "time_of n \<equiv> bn_timestamp (bn_data n)"
abbreviation work_of :: "blockNode \<Rightarrow> int" where "work_of n \<equiv> bn_workSum (bn_data n)"

definition invertLowestOne :: "int \<Rightarrow> int" where
  "invertLowestOne n = n AND int32 (n - 1)"

definition getAncestorHeight :: "int \<Rightarrow> int" where
  "getAncestorHeight height = invertLowestOne (invertLowestOne height)"

function AncestorLoop :: "int \<Rightarrow> blockNode option \<Rightarrow> blockNode option" where
  "AncestorLoop height None = None"
| "AncestorLoop height (Some (BlockNode p a d)) =
     (if bn_height d = height then Some (BlockNode p a d)
      else if a \<noteq> None \<and> getAncestorHeight (bn_height d) \<ge> height then AncestorLoop height a
      else AncestorLoop height p)"
  by pat_completeness auto

termination
  by (relation "measure (\<lambda>(h, n). size_option size n)") auto

definition Ancestor :: "blockNode \<Rightarrow> int \<Rightarrow> blockNode option" where
  "Ancestor node height =
     (if height < 0 \<or> height > height_of node then None else AncestorLoop height (Some node))"

definition RelativeAncestor :: "blockNode \<Rightarrow> int \<Rightarrow> blockNode option" where
  "RelativeAncestor node distance = Ancestor node (int32 (height_of node - distance))"

definition buildAncestor :: "blockNode \<Rightarrow> int \<Rightarrow> blockNode option" where
  "buildAncestor par height = Ancestor par (getAncestorHeight height)"

definition newBlockNode :: "hashers \<Rightarrow> BlockHeader \<Rightarrow> blockNode option \<Rightarrow> blockNode" where
  "newBlockNode H blockHeader par =
     (let data = \<lparr>bn_hash = BlockHash H blockHeader, bn_workSum = CalcWork (bh_Bits blockHeader),
            bn_height = 0, bn_version = bh_Version blockHeader, bn_bits = bh_Bits blockHeader,
            bn_nonce = bh_Nonce blockHeader, bn_timestamp = bh_Timestamp blockHeader,
            bn_merkleRoot = bh_MerkleRoot blockHeader, bn_nameRoot = bh_NameRoot blockHeader,
            bn_extraNonce = bh_ExtraNonce blockHeader, bn_reservedRoot = bh_ReservedRoot blockHeader,
            bn_witnessRoot = bh_WitnessRoot blockHeader, bn_mask = bh_Mask blockHeader\<rparr> in
      case par of
        None \<Rightarrow> BlockNode None None data
      | Some p \<Rightarrow>
          let height = int32 (height_of p + 1) in
          BlockNode (Some p) (buildAncestor p height)
            (data\<lparr>bn_height := height, bn_workSum := work_of p + bn_workSum data\<rparr>))"

definition Header :: "blockNode \<Rightarrow> BlockHeader" where
  "Header node =
     (let d = bn_data node in
      \<lparr>bh_Version = bn_version d,
       bh_PrevBlock = (case bn_parent node of None \<Rightarrow> zeroHash | Some p \<Rightarrow> hash_of p),
       bh_MerkleRoot = bn_merkleRoot d, bh_Timestamp = bn_timestamp d, bh_Bits = bn_bits d,
       bh_Nonce = bn_nonce d, bh_NameRoot = bn_nameRoot d, bh_ExtraNonce = bn_extraNonce d,
       bh_ReservedRoot = bn_reservedRoot d, bh_WitnessRoot = bn_witnessRoot d, bh_Mask = bn_mask d\<rparr>)"

definition IsAncestor :: "blockNode \<Rightarrow> blockNode option \<Rightarrow> bool" where
  "IsAncestor node otherNode =
     (case otherNode of
        None \<Rightarrow> False
      | Some other \<Rightarrow>
          (case Ancestor node (height_of other) of
             None \<Rightarrow> False
           | Some a \<Rightarrow> if height_of node = height_of a then False else bn_data a = bn_data other))"

definition medianTimeBlocks :: nat where "medianTimeBlocks = 11"

fun lastTimestamps :: "nat \<Rightarrow> blockNode option \<Rightarrow> int list" where
  "lastTimestamps 0 iterNode = []"
| "lastTimestamps (Suc i) None = []"
| "lastTimestamps (Suc i) (Some n) = time_of n # lastTimestamps i (bn_parent n)"

definition CalcPastMedianTime :: "blockNode \<Rightarrow> int" where
  "CalcPastMedianTime node =
     (let timestamps = lastTimestamps medianTimeBlocks (Some node) in
      sort timestamps ! (length timestamps div 2))"

section \<open>The index\<close>

definition statusDataStored :: byte where "statusDataStored = 1"
definition statusValid :: byte where "statusValid = 2"
definition statusValidateFailed :: byte where "statusValidateFailed = 4"
definition statusInvalidAncestor :: byte where "statusInvalidAncestor = 8"
definition statusHeaderStored :: byte where "statusHeaderStored = 16"
definition statusNone :: byte where "statusNone = 0"

definition HaveData :: "byte \<Rightarrow> bool" where "HaveData status \<longleftrightarrow> status AND statusDataStored \<noteq> 0"
definition HaveHeader :: "byte \<Rightarrow> bool" where "HaveHeader status \<longleftrightarrow> status AND statusHeaderStored \<noteq> 0"
definition KnownValid :: "byte \<Rightarrow> bool" where "KnownValid status \<longleftrightarrow> status AND statusValid \<noteq> 0"
definition KnownInvalid :: "byte \<Rightarrow> bool" where
  "KnownInvalid status \<longleftrightarrow> status AND (statusValidateFailed OR statusInvalidAncestor) \<noteq> 0"

record blockIndex =
  bi_index :: "hash \<rightharpoonup> blockNode"
  bi_status :: "hash \<Rightarrow> byte"
  bi_dirty :: "hash set"

definition newBlockIndex :: blockIndex where
  "newBlockIndex = \<lparr>bi_index = Map.empty, bi_status = (\<lambda>_. statusNone), bi_dirty = {}\<rparr>"

definition LookupNode :: "blockIndex \<Rightarrow> hash \<Rightarrow> blockNode option" where
  "LookupNode bi h = bi_index bi h"

definition NodeStatus :: "blockIndex \<Rightarrow> blockNode \<Rightarrow> byte" where
  "NodeStatus bi n = bi_status bi (hash_of n)"

definition HaveBlock :: "blockIndex \<Rightarrow> hash \<Rightarrow> bool" where
  "HaveBlock bi h = (case bi_index bi h of None \<Rightarrow> False | Some n \<Rightarrow> HaveData (NodeStatus bi n))"

text \<open>The status a new node carries comes with it.\<close>

definition AddNode :: "blockNode \<Rightarrow> byte \<Rightarrow> blockIndex \<Rightarrow> blockIndex" where
  "AddNode n status bi = bi\<lparr>bi_index := (bi_index bi)(hash_of n \<mapsto> n),
     bi_status := (bi_status bi)(hash_of n := status), bi_dirty := insert (hash_of n) (bi_dirty bi)\<rparr>"

definition SetStatusFlags :: "blockNode \<Rightarrow> byte \<Rightarrow> blockIndex \<Rightarrow> blockIndex" where
  "SetStatusFlags n flags bi = bi\<lparr>bi_status := (bi_status bi)(hash_of n := NodeStatus bi n OR flags),
     bi_dirty := insert (hash_of n) (bi_dirty bi)\<rparr>"

definition UnsetStatusFlags :: "blockNode \<Rightarrow> byte \<Rightarrow> blockIndex \<Rightarrow> blockIndex" where
  "UnsetStatusFlags n flags bi = bi\<lparr>bi_status := (bi_status bi)(hash_of n := NodeStatus bi n AND NOT flags),
     bi_dirty := insert (hash_of n) (bi_dirty bi)\<rparr>"

section \<open>Paths\<close>

text \<open>The nodes from genesis to a node.\<close>

fun path :: "blockNode \<Rightarrow> blockNode list" where
  "path (BlockNode p a d) = (case p of None \<Rightarrow> [] | Some q \<Rightarrow> path q) @ [BlockNode p a d]"

fun wf_node :: "blockNode \<Rightarrow> bool" where
  "wf_node (BlockNode p a d) =
     (bn_height d < 2 ^ 31 \<and>
      (case p of
         None \<Rightarrow> bn_height d = 0 \<and> a = None
       | Some q \<Rightarrow> wf_node q \<and> bn_height d = height_of q + 1 \<and> a = buildAncestor q (bn_height d)))"

lemma int32_id: "- (2 ^ 31) \<le> x \<Longrightarrow> x < 2 ^ 31 \<Longrightarrow> int32 x = x"
  unfolding int32_def by (rule sint_word_of_int_int32) simp_all

lemma wf_node_height: "wf_node n \<Longrightarrow> 0 \<le> height_of n \<and> height_of n < 2 ^ 31"
  by (induction n rule: wf_node.induct) (fastforce split: option.splits)

lemma wf_node_parent:
  "wf_node n \<Longrightarrow> bn_parent n = Some p \<Longrightarrow> wf_node p \<and> height_of n = height_of p + 1"
  by (cases n) auto

lemma wf_node_genesis: "wf_node n \<Longrightarrow> bn_parent n = None \<longleftrightarrow> height_of n = 0"
  using wf_node_height by (cases n) (fastforce split: option.splits)

lemma path_unfold: "path n = (case bn_parent n of None \<Rightarrow> [] | Some q \<Rightarrow> path q) @ [n]"
  by (cases n) simp

lemma length_path: "wf_node n \<Longrightarrow> length (path n) = nat (height_of n + 1)"
proof (induction n rule: wf_node.induct)
  case (1 p a d)
  show ?case
  proof (cases p)
    case (Some q)
    with 1 have "wf_node q" "length (path q) = nat (height_of q + 1)" "bn_height d = height_of q + 1" by simp_all
    then show ?thesis using Some wf_node_height [of q] by (simp, arith)
  qed (use 1 in simp)
qed

lemma path_nth:
  assumes "wf_node n" and "i < length (path n)"
  shows "wf_node (path n ! i) \<and> height_of (path n ! i) = int i \<and> path (path n ! i) = take (Suc i) (path n)"
  using assms
proof (induction n arbitrary: i rule: wf_node.induct)
  case (1 p a d)
  let ?n = "BlockNode p a d"
  show ?case
  proof (cases "i < length (path ?n) - 1")
    case True
    then obtain q where q: "p = Some q" "i < length (path q)" by (auto split: option.splits)
    with 1 have "wf_node (path q ! i) \<and> height_of (path q ! i) = int i \<and> path (path q ! i) = take (Suc i) (path q)"
      by simp
    with q show ?thesis by (simp add: nth_append)
  next
    case False
    with 1(3) have i: "Suc i = length (path ?n)" by simp
    then have e: "path ?n ! i = ?n" by (auto simp: nth_append split: option.splits)
    have "height_of ?n = int i" using length_path [OF 1(2)] i wf_node_height [OF 1(2)] by simp
    with e i 1(2) show ?thesis by simp
  qed
qed

section \<open>Skip pointers\<close>

lemma invertLowestOne_bounds:
  assumes "0 \<le> n" "n < 2 ^ 31"
  shows "0 \<le> invertLowestOne n \<and> invertLowestOne n \<le> max 0 (n - 1)"
proof (cases "n = 0")
  case False
  then have "0 \<le> n - 1" using assms by simp
  then show ?thesis using assms int32_id [of "n - 1"]
    by (simp add: invertLowestOne_def AND_upper2)
qed (simp add: invertLowestOne_def)

lemma getAncestorHeight_bounds:
  assumes "0 < n" "n < 2 ^ 31"
  shows "0 \<le> getAncestorHeight n \<and> getAncestorHeight n < n"
  using invertLowestOne_bounds [of n] invertLowestOne_bounds [of "invertLowestOne n"] assms
  by (auto simp: getAncestorHeight_def max_def split: if_split_asm)

lemma Ancestor_path:
  assumes "wf_node n" and "0 \<le> h" and "h \<le> height_of n"
  shows "AncestorLoop h (Some n) = Some (path n ! nat h)"
  using assms
proof (induction "nat (height_of n)" arbitrary: n h rule: less_induct)
  case less
  obtain p a d where n: "n = BlockNode p a d" by (cases n)
  have len: "length (path n) = nat (height_of n + 1)" by (rule length_path [OF less.prems(1)])
  show ?case
  proof (cases "bn_height d = h")
    case True
    then show ?thesis using less.prems(2) n len by (auto simp: nth_append split: option.splits)
  next
    case False
    with less.prems n have lt: "h < height_of n" by simp
    then obtain q where q0: "p = Some q"
      using less.prems(1,2) n wf_node_genesis [of n] by (cases p) auto
    then have q: "p = Some q" "wf_node q" "height_of n = height_of q + 1" "a = buildAncestor q (height_of n)"
      using less.prems(1) by (simp_all add: n)
    let ?g = "getAncestorHeight (height_of n)"
    have g: "0 \<le> ?g" "?g < height_of n"
      using getAncestorHeight_bounds [of "height_of n"] lt less.prems(2) wf_node_height [OF less.prems(1)] by simp_all
    have lq: "length (path q) = nat (height_of n)" using length_path [OF q(2)] q(3) by simp
    have IHq: "AncestorLoop k (Some q) = Some (path q ! nat k)" if "0 \<le> k" "k \<le> height_of q" for k
      using less.hyps [of q k] q(2,3) that wf_node_height [OF q(2)] by simp
    have pq: "path n ! nat k = path q ! nat k" if "0 \<le> k" "k \<le> height_of q" for k
      using that lq q(1,3) n by (simp add: nth_append)
    have a: "a = Some (path q ! nat ?g)"
      using q(3,4) g IHq [of ?g] by (simp add: buildAncestor_def Ancestor_def)
    show ?thesis
    proof (cases "h \<le> ?g")
      case True
      let ?b = "path q ! nat ?g"
      have b: "wf_node ?b" "height_of ?b = ?g" "path ?b = take (Suc (nat ?g)) (path q)"
        using path_nth [OF q(2), of "nat ?g"] g lq by simp_all
      have "AncestorLoop h (Some ?b) = Some (path ?b ! nat h)"
        using less.hyps [of ?b h] b(1,2) True less.prems(2) g by simp
      also have "\<dots> = Some (path n ! nat h)" using b(3) True less.prems(2) pq [of h] g q(3) by simp
      finally have "AncestorLoop h a = Some (path n ! nat h)" unfolding a .
      moreover have "AncestorLoop h (Some n) = AncestorLoop h a"
        using False True a unfolding n by (subst AncestorLoop.simps) simp
      ultimately show ?thesis by (rule trans [rotated])
    next
      case nskip: False
      then have "AncestorLoop h (Some n) = AncestorLoop h (Some q)"
        using False q(1) unfolding n by (subst AncestorLoop.simps) simp
      then show ?thesis using IHq [of h] pq [of h] lt less.prems(2) q(3) by simp
    qed
  qed
qed

lemma Ancestor_eq:
  "wf_node n \<Longrightarrow> Ancestor n h = (if 0 \<le> h \<and> h \<le> height_of n then Some (path n ! nat h) else None)"
  using Ancestor_path by (auto simp: Ancestor_def)

section \<open>Nodes the program makes\<close>

text \<open>The nodes that arise from headers by \<open>newBlockNode\<close>.\<close>

inductive made :: "hashers \<Rightarrow> blockNode \<Rightarrow> bool" for H where
  genesis: "made H (newBlockNode H hdr None)"
| child: "made H p \<Longrightarrow> height_of p < 2 ^ 31 - 1 \<Longrightarrow> bh_PrevBlock hdr = hash_of p
    \<Longrightarrow> made H (newBlockNode H hdr (Some p))"

inductive_cases madeE: "made H n"

lemma newBlockNode_child:
  assumes "wf_node p" and "height_of p < 2 ^ 31 - 1"
  shows "wf_node (newBlockNode H hdr (Some p))" "bn_parent (newBlockNode H hdr (Some p)) = Some p"
    "height_of (newBlockNode H hdr (Some p)) = height_of p + 1"
    "work_of (newBlockNode H hdr (Some p)) = work_of p + CalcWork (bh_Bits hdr)"
  using int32_id [of "height_of p + 1"] wf_node_height [OF assms(1)] assms
  by (simp_all add: newBlockNode_def Let_def)

lemma made_wf: "made H n \<Longrightarrow> wf_node n"
  by (induction rule: made.induct) (simp_all add: newBlockNode_child, simp add: newBlockNode_def Let_def)

text \<open>The ancestor found by following parents only.\<close>

fun walkBack :: "nat \<Rightarrow> blockNode \<Rightarrow> blockNode option" where
  "walkBack 0 n = Some n"
| "walkBack (Suc k) n = (case bn_parent n of None \<Rightarrow> None | Some p \<Rightarrow> walkBack k p)"

lemma walkBack_path:
  "wf_node n \<Longrightarrow> k < length (path n) \<Longrightarrow> walkBack k n = Some (path n ! (length (path n) - 1 - k))"
proof (induction k arbitrary: n)
  case 0
  then show ?case by (subst (1 2) path_unfold) (simp split: option.split)
next
  case (Suc k)
  then obtain p where p: "bn_parent n = Some p" by (cases n) (auto split: option.splits)
  then have "wf_node p" "path n = path p @ [n]"
    using wf_node_parent [OF Suc.prems(1)] by (simp_all add: path_unfold [of n])
  moreover from this(2) Suc.prems(2) have "length (path p) - Suc k < length (path p)" by simp
  ultimately show ?case using Suc.IH [of p] Suc.prems(2) p by (simp add: nth_append)
qed

section \<open>Medians\<close>

lemma sorted_nth_ge:
  assumes "sorted xs" and "i < length xs"
  shows "m \<le> xs ! i \<longleftrightarrow> length (filter (\<lambda>x. x < m) xs) \<le> i"
  using assms
proof (induction xs arbitrary: i)
  case (Cons x xs)
  show ?case
  proof (cases "x < m")
    case True
    with Cons show ?thesis by (cases i) auto
  next
    case False
    then have "filter (\<lambda>x. x < m) (x # xs) = []" using Cons.prems(1) by (fastforce simp: filter_empty_conv)
    moreover have "m \<le> (x # xs) ! i"
      using False Cons.prems sorted_nth_mono [of "x # xs" 0 i] by simp
    ultimately show ?thesis by simp
  qed
qed simp

lemma length_filter_sort: "length (filter P (sort xs)) = length (filter P xs)"
  by (simp add: filter_sort)

lemma median_ge:
  assumes "xs \<noteq> []"
  shows "m \<le> sort xs ! (length xs div 2) \<longleftrightarrow> length (filter (\<lambda>x. x < m) xs) \<le> length xs div 2"
  using sorted_nth_ge [of "sort xs" "length xs div 2" m] assms by (simp add: length_filter_sort)

lemma lastTimestamps_take: "lastTimestamps i n = take i (lastTimestamps (Suc i) n)"
proof (induction i arbitrary: n)
  case (Suc i)
  then show ?case using Suc [of "bn_parent (the n)"] by (cases n) auto
qed simp

lemma length_filter_take: "length (filter P (take i xs)) \<le> length (filter P xs)"
  by (metis append_take_drop_id filter_append le_add1 length_append)

section \<open>Properties\<close>

text \<open>C25: Skip pointers are sound and complete. For every node made from headers, \<open>Ancestor\<close> returns
  at every height from 0 to the node's own the very node that following parents would reach, and
  nil at every other height.\<close>

theorem skip_pointers_find_ancestor:
  assumes "made H n"
  shows "Ancestor n h = (if 0 \<le> h \<and> h \<le> height_of n then walkBack (nat (height_of n - h)) n else None)"
proof -
  have wf: "wf_node n" by (rule made_wf [OF assms])
  show ?thesis
  proof (cases "0 \<le> h \<and> h \<le> height_of n")
    case True
    then have "nat (height_of n - h) < length (path n)" "length (path n) - 1 - nat (height_of n - h) = nat h"
      using length_path [OF wf] by auto
    then have "walkBack (nat (height_of n - h)) n = Some (path n ! nat h)"
      using walkBack_path [OF wf] by metis
    then show ?thesis using True Ancestor_eq [OF wf] by simp
  qed (auto simp: Ancestor_eq [OF wf])
qed

definition ex_genesis :: BlockHeader where
  "ex_genesis = \<lparr>bh_Version = 0, bh_PrevBlock = zeroHash, bh_MerkleRoot = zeroHash, bh_Timestamp = 1580745078,
     bh_Bits = 0x1c00ffff, bh_Nonce = 0, bh_NameRoot = zeroHash, bh_ExtraNonce = replicate 24 0,
     bh_ReservedRoot = zeroHash, bh_WitnessRoot = zeroHash, bh_Mask = zeroHash\<rparr>"

definition ex_header_hashers :: hashers where
  "ex_header_hashers = \<lparr>blake2b256 = (\<lambda>bs. take 32 (bs @ replicate 32 0)),
     blake2b512 = (\<lambda>bs. take 64 (bs @ replicate 64 0)), sha3_256 = (\<lambda>bs. take 32 (bs @ replicate 32 0))\<rparr>"

definition ex_node :: blockNode where
  "ex_node = newBlockNode ex_header_hashers ex_genesis None"

definition ex_child :: BlockHeader where
  "ex_child = ex_genesis\<lparr>bh_PrevBlock := hash_of ex_node, bh_Timestamp := 1580745679\<rparr>"

theorem skip_pointers_find_ancestor_witness:
  "Ancestor (newBlockNode ex_header_hashers ex_child (Some ex_node)) 0
   = walkBack 1 (newBlockNode ex_header_hashers ex_child (Some ex_node))"
proof -
  have g: "made ex_header_hashers ex_node" unfolding ex_node_def by (rule made.genesis)
  have h: "height_of ex_node = 0" by (simp add: ex_node_def newBlockNode_def Let_def)
  have "made ex_header_hashers (newBlockNode ex_header_hashers ex_child (Some ex_node))"
    by (rule made.child [OF g]) (simp_all add: h, simp add: ex_child_def)
  from skip_pointers_find_ancestor [OF this, of 0] newBlockNode_child(3) [OF made_wf [OF g]] show ?thesis
    by (simp add: h)
qed

text \<open>C29: The past median time never goes back. A header whose timestamp is after the median time of
  its parent (the rule for accepting headers) makes a node whose own median time is at least the
  parent's.\<close>

theorem past_median_time_monotone:
  assumes "CalcPastMedianTime p < bh_Timestamp hdr"
  shows "CalcPastMedianTime p \<le> CalcPastMedianTime (newBlockNode H hdr (Some p))"
proof -
  let ?n = "newBlockNode H hdr (Some p)" and ?m = "CalcPastMedianTime p"
  define ps where "ps = lastTimestamps 11 (Some p)"
  define ts where "ts = lastTimestamps 11 (Some ?n)"
  have n: "bn_parent ?n = Some p" "time_of ?n = bh_Timestamp hdr" by (simp_all add: newBlockNode_def Let_def)
  have ts: "ts = bh_Timestamp hdr # take 10 ps"
    unfolding ts_def ps_def using n lastTimestamps_take [of 10 "Some p"]
    by (simp add: numeral_eq_Suc)
  have ne: "ps \<noteq> []" "ts \<noteq> []" by (simp_all add: ps_def ts numeral_eq_Suc)
  have m: "?m = sort ps ! (length ps div 2)"
    by (simp add: CalcPastMedianTime_def medianTimeBlocks_def ps_def Let_def)
  have "length (filter (\<lambda>x. x < ?m) ts) \<le> length (filter (\<lambda>x. x < ?m) ps)"
    using assms by (simp add: ts length_filter_take)
  also have "\<dots> \<le> length ps div 2" using median_ge [OF ne(1), of ?m] by (simp add: m)
  also have "\<dots> \<le> length ts div 2"
  proof -
    have "length (lastTimestamps k q) \<le> k" for k q by (induction k q rule: lastTimestamps.induct) simp_all
    then have "length ps \<le> 11" unfolding ps_def .
    then have "length ps \<le> length ts" by (simp add: ts)
    then show ?thesis by (rule div_le_mono)
  qed
  finally have "?m \<le> sort ts ! (length ts div 2)" using median_ge [OF ne(2), of ?m] by simp
  then show ?thesis by (simp add: CalcPastMedianTime_def medianTimeBlocks_def ts_def [symmetric] Let_def)
qed

theorem past_median_time_monotone_witness:
  "CalcPastMedianTime ex_node \<le> CalcPastMedianTime (newBlockNode ex_header_hashers ex_child (Some ex_node))"
  by (rule past_median_time_monotone)
    (simp add: CalcPastMedianTime_def medianTimeBlocks_def ex_node_def newBlockNode_def ex_genesis_def
      ex_child_def Let_def numeral_eq_Suc)

end
