(* ===== verification/Difficulty.thy ===== *)
theory Difficulty
  imports Block_Node
begin

text \<open>
  Difficulty retargeting (src/blockchain/difficulty.go) over the nodes of \<open>Block_Node\<close>, which are
  the repository's implementation of the \<open>HeaderCtx\<close> interface. The retarget reads the proof of
  work parameters of the chain and the spans \<open>New\<close> derives from them (src/blockchain/chain.go).
  Durations are in nanoseconds as \<open>time.Duration\<close> has them. The lemmas show that on nodes made from
  headers the calculation never fails, that the target it asks for never exceeds the limit, and
  that the median-of-three endpoint selection returns a block whose time is the middle one.
\<close>

section \<open>Parameters\<close>

record powParams =
  PowLimit :: int
  PowLimitBits :: u32
  PoWNoRetargeting :: bool
  ReduceMinDifficulty :: bool
  MinDiffReductionTime :: int
  TargetTimespan :: int
  TargetTimePerBlock :: int
  RetargetAdjustmentFactor :: int

definition timeSecond :: int where "timeSecond = 1000000000"

definition mainPow :: powParams where
  "mainPow = \<lparr>PowLimit = 0x0000000000ffff00000000000000000000000000000000000000000000000000,
     PowLimitBits = 0x1c00ffff, PoWNoRetargeting = False, ReduceMinDifficulty = False,
     MinDiffReductionTime = 0, TargetTimespan = 60 * timeSecond * 10 * 144,
     TargetTimePerBlock = 60 * timeSecond * 10, RetargetAdjustmentFactor = 4\<rparr>"

definition regressionPow :: powParams where
  "regressionPow = \<lparr>PowLimit = 0x7fffff0000000000000000000000000000000000000000000000000000000000,
     PowLimitBits = 0x207fffff, PoWNoRetargeting = True, ReduceMinDifficulty = False,
     MinDiffReductionTime = 0, TargetTimespan = 60 * timeSecond * 10 * 144,
     TargetTimePerBlock = 60 * timeSecond * 10, RetargetAdjustmentFactor = 4\<rparr>"

record chainCtx =
  cc_ChainParams :: powParams
  BlocksPerRetarget :: int
  MinRetargetTimespan :: int
  MaxRetargetTimespan :: int

definition newChainCtx :: "powParams \<Rightarrow> chainCtx" where
  "newChainCtx params =
     (let targetTimespan = TargetTimespan params div timeSecond;
          targetTimePerBlock = TargetTimePerBlock params div timeSecond;
          adjustmentFactor = RetargetAdjustmentFactor params in
      \<lparr>cc_ChainParams = params, BlocksPerRetarget = int32 (targetTimespan div targetTimePerBlock),
       MinRetargetTimespan = targetTimespan div adjustmentFactor,
       MaxRetargetTimespan = targetTimespan * adjustmentFactor\<rparr>)"

section \<open>Retargeting\<close>

definition suitableBlock :: "blockNode option \<Rightarrow> blockNode option" where
  "suitableBlock node =
     (case node of
        None \<Rightarrow> None
      | Some z \<Rightarrow>
          (case bn_parent z of
             None \<Rightarrow> None
           | Some y \<Rightarrow>
               (case bn_parent y of
                  None \<Rightarrow> None
                | Some x \<Rightarrow>
                    let (x, z) = (if time_of x > time_of z then (z, x) else (x, z));
                        (x, y) = (if time_of x > time_of y then (y, x) else (x, y));
                        (y, z) = (if time_of y > time_of z then (z, y) else (y, z)) in
                    Some y)))"


text \<open>The easiest difficulty after a duration. The loop ends when the maximum span is positive; a
  zero or negative span would not end it, which the fuel makes \<open>None\<close>.\<close>

fun easiestLoop :: "nat \<Rightarrow> powParams \<Rightarrow> int \<Rightarrow> int \<Rightarrow> int \<Rightarrow> int option" where
  "easiestLoop 0 params maxSpan durationVal newTarget = None"
| "easiestLoop (Suc fuel) params maxSpan durationVal newTarget =
     (if durationVal > 0 \<and> newTarget < PowLimit params
      then easiestLoop fuel params maxSpan (durationVal - maxSpan)
             (newTarget * RetargetAdjustmentFactor params)
      else Some newTarget)"

definition calcEasiestDifficulty :: "nat \<Rightarrow> chainCtx \<Rightarrow> u32 \<Rightarrow> int \<Rightarrow> u32 option" where
  "calcEasiestDifficulty fuel c bits duration =
     (let params = cc_ChainParams c; durationVal = duration div timeSecond in
      if ReduceMinDifficulty params \<and> durationVal > MinDiffReductionTime params div timeSecond
      then Some (PowLimitBits params)
      else map_option (\<lambda>newTarget.
             BigToCompact (if newTarget > PowLimit params then PowLimit params else newTarget))
           (easiestLoop fuel params (MaxRetargetTimespan c) durationVal (CompactToBig bits)))"

section \<open>Endpoints\<close>


lemma suitableBlock_median:
  assumes "bn_parent n = Some y" and "bn_parent y = Some x" and "suitableBlock (Some n) = Some b"
  shows "b \<in> {x, y, n} \<and> time_of b = sort [time_of x, time_of y, time_of n] ! 1"
  using assms by (auto simp: suitableBlock_def Let_def split: if_split_asm)

lemma BigToCompact_at_most:
  assumes "-1 \<le> n" and "n < 256 ^ 254"
  shows "CompactToBig (BigToCompact n) \<le> n"
proof -
  consider "n = -1" | "n = 0" | "0 < n" using assms(1) by linarith
  then show ?thesis
  proof cases
    case 1
    have "CompactToBig (BigToCompact (-1)) = -1" by code_simp
    then show ?thesis by (simp add: 1)
  next
    case 2
    have "CompactToBig (BigToCompact 0) = 0" by code_simp
    then show ?thesis by (simp add: 2)
  next
    case 3
    then show ?thesis using compact_error assms(2) by blast
  qed
qed

lemma easiestLoop_returns:
  "0 < maxSpan \<Longrightarrow> nat d < fuel \<Longrightarrow> \<exists>t. easiestLoop fuel params maxSpan d target = Some t"
proof (induction fuel arbitrary: d target)
  case (Suc fuel)
  then show ?case using Suc.IH [of "d - maxSpan"] by auto
qed simp



section \<open>Properties\<close>

definition pow_ok :: "powParams \<Rightarrow> bool" where
  "pow_ok params \<longleftrightarrow> 0 \<le> PowLimit params \<and> PowLimit params < 2 ^ 256 \<and>
     CompactToBig (PowLimitBits params) \<le> PowLimit params"

text \<open>The main network.\<close>

lemma mainCtx [simp]:
  "cc_ChainParams (newChainCtx mainPow) = mainPow" "BlocksPerRetarget (newChainCtx mainPow) = 144"
  "MaxRetargetTimespan (newChainCtx mainPow) = 345600" "RetargetAdjustmentFactor mainPow = 4"
  by (simp_all add: newChainCtx_def mainPow_def timeSecond_def Let_def int32_id)

lemma mainPow_ok: "pow_ok mainPow" "0 \<le> CompactToBig 0x1c00ffff"
proof -
  have v: "CompactToBig 0x1c00ffff = 0x0000000000ffff00000000000000000000000000000000000000000000000000" by code_simp
  then show "pow_ok mainPow" by (simp add: pow_ok_def mainPow_def)
  show "0 \<le> CompactToBig 0x1c00ffff" by (simp add: v)
qed



text \<open>C31: The search for the easiest difficulty ends. When the longest retarget span is positive (it is
  the target span times the adjustment factor), the loop returns after at most one step for each
  second of the duration, with a target at most the proof-of-work limit.\<close>

theorem easiest_difficulty_returns:
  assumes "0 < MaxRetargetTimespan c" and "pow_ok (cc_ChainParams c)" and "0 \<le> CompactToBig bits"
    and "1 \<le> RetargetAdjustmentFactor (cc_ChainParams c)"
  shows "\<exists>r. calcEasiestDifficulty (Suc (nat (duration div timeSecond))) c bits duration = Some r
    \<and> CompactToBig r \<le> PowLimit (cc_ChainParams c)"
proof -
  let ?p = "cc_ChainParams c"
  have pos: "0 \<le> t" if "easiestLoop k ?p m d u = Some t" "0 \<le> u" for k m d u t
    using that assms(4) by (induction k ?p m d u rule: easiestLoop.induct) (auto split: if_split_asm)
  obtain t where t: "easiestLoop (Suc (nat (duration div timeSecond))) ?p (MaxRetargetTimespan c)
      (duration div timeSecond) (CompactToBig bits) = Some t"
    using easiestLoop_returns [OF assms(1)] by blast
  let ?t = "if t > PowLimit ?p then PowLimit ?p else t"
  have "(2 :: int) ^ 256 \<le> 2 ^ 2032" by (rule power_increasing) simp_all
  then have "CompactToBig (BigToCompact ?t) \<le> ?t"
    using pos [OF t assms(3)] assms(2) by (intro BigToCompact_at_most) (auto simp: pow_ok_def)
  then have "CompactToBig (BigToCompact ?t) \<le> PowLimit ?p" by (auto split: if_split_asm)
  then have "calcEasiestDifficulty (Suc (nat (duration div timeSecond))) c bits duration =
    (if ReduceMinDifficulty ?p \<and> duration div timeSecond > MinDiffReductionTime ?p div timeSecond
     then Some (PowLimitBits ?p) else Some (BigToCompact ?t)) \<and> CompactToBig (BigToCompact ?t) \<le> PowLimit ?p
     \<and> CompactToBig (PowLimitBits ?p) \<le> PowLimit ?p"
    using assms(2) unfolding calcEasiestDifficulty_def Let_def t option.map pow_ok_def by (intro conjI refl) blast+
  then show ?thesis
    by (cases "ReduceMinDifficulty ?p \<and> duration div timeSecond > MinDiffReductionTime ?p div timeSecond")
      (simp_all only: if_True if_False option.inject ex_simps simp_thms)
qed

theorem easiest_difficulty_returns_witness:
  "\<exists>r. calcEasiestDifficulty (Suc (nat (7200 * timeSecond div timeSecond))) (newChainCtx mainPow) 0x1c00ffff (7200 * timeSecond)
      = Some r \<and> CompactToBig r \<le> PowLimit (cc_ChainParams (newChainCtx mainPow))"
  by (rule easiest_difficulty_returns) (simp_all add: mainPow_ok)

end
