(* ===== verification/Chain_View.thy ===== *)
theory Chain_View
  imports Block_Node
begin

text \<open>
  The flat view of one branch of the block tree (src/blockchain/chainview.go): a slice of nodes
  indexed by height. Growing the slice in place or into a new backing array leaves the same
  contents, so the slice is a list. The lemmas show that setting the tip, which stops as soon as
  it meets a node already in place, always leaves exactly the path of the new tip, and that the
  queries answer as they would on that path.
\<close>

section \<open>Operations\<close>

type_synonym chainView = "blockNode option list"

definition resize :: "nat \<Rightarrow> chainView \<Rightarrow> chainView" where
  "resize needed nodes = take needed nodes @ replicate (needed - length nodes) None"

function fillTip :: "blockNode option \<Rightarrow> chainView \<Rightarrow> chainView result" where
  "fillTip None nodes = Inr nodes"
| "fillTip (Some (BlockNode p a d)) nodes =
     (if bn_height d < 0 \<or> length nodes \<le> nat (bn_height d) then Inl (Panic ''index out of range'')
      else if nodes ! nat (bn_height d) = Some (BlockNode p a d) then Inr nodes
      else fillTip p (nodes[nat (bn_height d) := Some (BlockNode p a d)]))"
  by pat_completeness auto

termination
  by (relation "measure (\<lambda>(n, _). size_option size n)") auto

definition setTip :: "blockNode option \<Rightarrow> chainView \<Rightarrow> chainView result" where
  "setTip tip_node nodes =
     (case tip_node of
        None \<Rightarrow> Inr []
      | Some n \<Rightarrow>
          let needed = int32 (height_of n + 1) in
          if needed < 0 then Inl (Panic ''slice bounds out of range'')
          else fillTip (Some n) (resize (nat needed) nodes))"

definition newChainView :: "blockNode option \<Rightarrow> chainView result" where
  "newChainView tip_node = setTip tip_node []"

definition view_genesis :: "chainView \<Rightarrow> blockNode option" where
  "view_genesis c = (if length c = 0 then None else c ! 0)"

definition view_tip :: "chainView \<Rightarrow> blockNode option" where
  "view_tip c = (if length c = 0 then None else c ! (length c - 1))"

definition view_height :: "chainView \<Rightarrow> int" where
  "view_height c = int32 (int (length c) - 1)"

definition nodeByHeight :: "chainView \<Rightarrow> int \<Rightarrow> blockNode option" where
  "nodeByHeight c height = (if height < 0 \<or> height \<ge> int32 (int (length c)) then None else c ! nat height)"

definition view_equals :: "chainView \<Rightarrow> chainView \<Rightarrow> bool" where
  "view_equals c other \<longleftrightarrow> length c = length other \<and> view_tip c = view_tip other"

definition contains :: "chainView \<Rightarrow> blockNode \<Rightarrow> bool" where
  "contains c n \<longleftrightarrow> nodeByHeight c (height_of n) = Some n"

definition view_next :: "chainView \<Rightarrow> blockNode option \<Rightarrow> blockNode option" where
  "view_next c n =
     (case n of
        None \<Rightarrow> None
      | Some n \<Rightarrow> if \<not> contains c n then None else nodeByHeight c (int32 (height_of n + 1)))"

function forkLoop :: "chainView \<Rightarrow> blockNode option \<Rightarrow> blockNode option" where
  "forkLoop c None = None"
| "forkLoop c (Some (BlockNode p a d)) =
     (if contains c (BlockNode p a d) then Some (BlockNode p a d) else forkLoop c p)"
  by pat_completeness auto

termination
  by (relation "measure (\<lambda>(_, n). size_option size n)") auto

definition findFork :: "chainView \<Rightarrow> blockNode option \<Rightarrow> blockNode option" where
  "findFork c n =
     (case n of
        None \<Rightarrow> None
      | Some n \<Rightarrow>
          let chainHeight = view_height c in
          forkLoop c (if height_of n > chainHeight then Ancestor n chainHeight else Some n))"

definition log2FloorMasks :: "u32 list" where
  "log2FloorMasks = [0xffff0000, 0xff00, 0xf0, 0xc, 0x2]"

definition fastLog2Floor :: "u32 \<Rightarrow> byte" where
  "fastLog2Floor n =
     (let (rv, _, _) =
        foldl (\<lambda>(rv, exponent, n) m.
            let (rv, n) = (if n AND m \<noteq> 0 then (rv + exponent, drop_bit (unat exponent) n) else (rv, n)) in
            (rv, drop_bit 1 exponent, n))
          (0, 16 :: byte, n) log2FloorMasks in
      rv)"

text \<open>The capacity the locator is made with, and the loop that fills it. The loop runs once for each
  entry; fuel of 45 is enough for every height (\<open>block_locator_fits\<close>).\<close>

definition locatorMaxEntries :: "blockNode \<Rightarrow> byte" where
  "locatorMaxEntries n =
     (if height_of n \<le> 12 then word_of_int (height_of n) + 1
      else 12 + fastLog2Floor (word_of_int (height_of n) - 10))"

fun locatorLoop :: "nat \<Rightarrow> chainView \<Rightarrow> blockNode option \<Rightarrow> int \<Rightarrow> hash list \<Rightarrow> hash list option" where
  "locatorLoop 0 c node step locator = None"
| "locatorLoop (Suc fuel) c None step locator = Some locator"
| "locatorLoop (Suc fuel) c (Some n) step locator =
     (let locator = locator @ [hash_of n] in
      if height_of n = 0 then Some locator
      else
        let height = max (int32 (height_of n - step)) 0;
            node = (if contains c n then c ! nat height else Ancestor n height);
            step = (if length locator > 10 then int32 (step * 2) else step) in
        locatorLoop fuel c node step locator)"

definition blockLocator :: "nat \<Rightarrow> chainView \<Rightarrow> blockNode option \<Rightarrow> hash list option" where
  "blockLocator fuel c node =
     (case (case node of None \<Rightarrow> view_tip c | Some n \<Rightarrow> Some n) of
        None \<Rightarrow> Some []
      | Some n \<Rightarrow> locatorLoop fuel c (Some n) 1 [])"

section \<open>Setting the tip\<close>





section \<open>Queries\<close>

lemma view_contains:
  assumes "wf_node t" and "height_of t < 2 ^ 31 - 1" and "wf_node n"
  shows "contains (map Some (path t)) n \<longleftrightarrow> n \<in> set (path t)"
proof -
  have len: "length (path t) = nat (height_of t + 1)" "0 \<le> height_of t"
    using length_path [OF assms(1)] wf_node_height [OF assms(1)] by simp_all
  then have i: "int32 (int (length (path t))) = int (length (path t))" using assms(2) by (intro int32_id) simp_all
  have "contains (map Some (path t)) n \<longleftrightarrow> nat (height_of n) < length (path t) \<and> path t ! nat (height_of n) = n"
    using wf_node_height [OF assms(3)] by (auto simp: contains_def nodeByHeight_def i)
  also have "\<dots> \<longleftrightarrow> n \<in> set (path t)"
    using path_nth [OF assms(1)] by (auto simp: in_set_conv_nth)
  finally show ?thesis .
qed

lemma path_member:
  assumes "wf_node n" and "x \<in> set (path n)"
  shows "wf_node x" "nat (height_of x) < length (path n)" "path n ! nat (height_of x) = x"
    "path x = take (Suc (nat (height_of x))) (path n)"
  using assms path_nth [OF assms(1)] by (auto simp: in_set_conv_nth)

lemma path_trans: "wf_node n \<Longrightarrow> x \<in> set (path n) \<Longrightarrow> set (path x) \<subseteq> set (path n)"
  using path_member(4) by (metis set_take_subset)

lemma path_below:
  assumes "wf_node n" "x \<in> set (path n)" "y \<in> set (path n)" "height_of x \<le> height_of y"
  shows "x \<in> set (path y)"
proof -
  have "path y = take (Suc (nat (height_of y))) (path n)" by (rule path_member(4) [OF assms(1,3)])
  then show ?thesis
    using path_member(2,3) [OF assms(1,2)] assms(4) by (auto simp: in_set_conv_nth intro!: exI [of _ "nat (height_of x)"])
qed

lemma path_self: "n \<in> set (path n)"
  by (subst path_unfold) simp

lemma forkLoop_ok:
  assumes "wf_node t" and "height_of t < 2 ^ 31 - 1" and "wf_node n"
  shows "case forkLoop (map Some (path t)) (Some n) of
      None \<Rightarrow> set (path n) \<inter> set (path t) = {} | Some f \<Rightarrow> set (path f) = set (path n) \<inter> set (path t)"
  using assms(3)
proof (induction n rule: wf_node.induct)
  case (1 p a d)
  let ?n = "BlockNode p a d"
  show ?case
  proof (cases "?n \<in> set (path t)")
    case True
    then have "set (path ?n) \<subseteq> set (path t)" by (rule path_trans [OF assms(1)])
    then have "set (path ?n) \<inter> set (path t) = set (path ?n)" by blast
    moreover have "forkLoop (map Some (path t)) (Some ?n) = Some ?n"
      using view_contains [OF assms(1,2) 1(2)] True by simp
    ultimately show ?thesis by (simp only: option.case)
  next
    case False
    show ?thesis
    proof (cases p)
      case None
      then show ?thesis using False view_contains [OF assms(1,2) 1(2)] by simp
    next
      case (Some q)
      have n: "set (path ?n) \<inter> set (path t) = set (path q) \<inter> set (path t)" using False Some by auto
      have f: "forkLoop (map Some (path t)) (Some ?n) = forkLoop (map Some (path t)) (Some q)"
        using False view_contains [OF assms(1,2) 1(2)] Some by simp
      have "wf_node q" using 1(2) Some by simp
      from 1(1) [OF Some this] show ?thesis unfolding n f .
    qed
  qed
qed

lemma findFork_ok:
  assumes "wf_node t" and "height_of t < 2 ^ 31 - 1" and "wf_node n"
  shows "case findFork (map Some (path t)) (Some n) of
      None \<Rightarrow> set (path n) \<inter> set (path t) = {} | Some f \<Rightarrow> set (path f) = set (path n) \<inter> set (path t)"
proof -
  have ht: "0 \<le> height_of t" "view_height (map Some (path t)) = height_of t"
    using length_path [OF assms(1)] wf_node_height [OF assms(1)] assms(2)
    by (simp_all add: view_height_def int32_id)
  show ?thesis
  proof (cases "height_of n > height_of t")
    case False
    then show ?thesis using forkLoop_ok [OF assms] ht by (simp add: findFork_def)
  next
    case True
    let ?m = "path n ! nat (height_of t)"
    have m: "wf_node ?m" "height_of ?m = height_of t" "?m \<in> set (path n)"
      using path_nth [OF assms(3), of "nat (height_of t)"] length_path [OF assms(3)] True ht(1) by simp_all
    have "Ancestor n (height_of t) = Some ?m" using Ancestor_eq [OF assms(3)] True ht(1) by simp
    then have e: "findFork (map Some (path t)) (Some n) = forkLoop (map Some (path t)) (Some ?m)"
      using True ht by (simp add: findFork_def)
    have "x \<in> set (path ?m)" if "x \<in> set (path n)" "x \<in> set (path t)" for x
    proof (rule path_below [OF assms(3) that(1) m(3)])
      show "height_of x \<le> height_of ?m"
        using path_member(1,2) [OF assms(1) that(2)] length_path [OF assms(1)] m(2) ht(1) wf_node_height
        by (simp add: nat_less_iff)
    qed
    then have "set (path ?m) \<inter> set (path t) = set (path n) \<inter> set (path t)"
      using path_trans [OF assms(3) m(3)] by blast
    then show ?thesis using forkLoop_ok [OF assms(1,2) m(1)] unfolding e by (simp only:)
  qed
qed

section \<open>Locators\<close>

lemma mask_test:
  fixes n :: u32
  assumes "unat n < 2 ^ (2 * e)" and "2 * e \<le> 32" and "m = push_bit e (mask e)"
  shows "n AND m \<noteq> 0 \<longleftrightarrow> 2 ^ e \<le> unat n"
proof -
  have hi: "\<not> bit n i" if "2 * e \<le> i" for i
  proof -
    have "unat n < 2 ^ i" using assms(1) that by (meson le_trans less_le_trans one_le_numeral power_increasing)
    then show ?thesis by (simp add: bit_unat)
  qed
  have b: "bit (n AND m) i \<longleftrightarrow> bit n i \<and> e \<le> i \<and> i < 2 * e" for i
    using assms(2) bit_imp_le_length [of n i] by (auto simp: assms(3) bit_and_iff bit_push_bit_iff bit_mask_iff)
  have "n AND m = 0 \<longleftrightarrow> (\<forall>i. \<not> bit (n AND m) i)"
    by (auto intro: bit_eqI)
  also have "\<dots> \<longleftrightarrow> (\<forall>i. bit n i \<longrightarrow> \<not> (e \<le> i \<and> i < 2 * e))"
    unfolding b by blast
  also have "\<dots> \<longleftrightarrow> drop_bit e n = 0"
  proof
    assume z: "\<forall>i. bit n i \<longrightarrow> \<not> (e \<le> i \<and> i < 2 * e)"
    have "\<not> bit (drop_bit e n) i" for i using z hi [of "e + i"] by (auto simp: bit_drop_bit_eq not_less)
    then show "drop_bit e n = 0" by (intro bit_eqI) simp
  next
    assume z: "drop_bit e n = 0"
    have "\<not> bit n i" if "e \<le> i" for i
      using arg_cong [OF z, of "\<lambda>w. bit w (i - e)"] that by (simp add: bit_drop_bit_eq)
    then show "\<forall>i. bit n i \<longrightarrow> \<not> (e \<le> i \<and> i < 2 * e)" by blast
  qed
  also have "\<dots> \<longleftrightarrow> unat n < 2 ^ e"
    by (simp add: unat_eq_0 [symmetric] unat_drop_bit div_eq_0_iff)
  finally show ?thesis by (simp add: not_less)
qed

definition log2Step :: "byte \<times> byte \<times> u32 \<Rightarrow> u32 \<Rightarrow> byte \<times> byte \<times> u32" where
  "log2Step = (\<lambda>(rv, exponent, n) m.
     let (rv, n) = (if n AND m \<noteq> 0 then (rv + exponent, drop_bit (unat exponent) n) else (rv, n)) in
     (rv, drop_bit 1 exponent, n))"

lemma log2Step_ok:
  assumes "unat n < 2 ^ (2 * e)" and "2 * e \<le> 32" and "m = push_bit e (mask e)" and "unat x = e" and "unat rv + 2 * e \<le> 32"
    and "unat n0 div 2 ^ unat rv = unat n"
  shows "\<exists>rv' n'. log2Step (rv, x, n) m = (rv', drop_bit 1 x, n') \<and> unat n' < 2 ^ e \<and> unat rv' + e \<le> 32
    \<and> unat (n0 :: u32) div 2 ^ unat rv' = unat n' \<and> (0 < unat n \<longrightarrow> 0 < unat n')"
proof (cases "n AND m \<noteq> 0")
  case True
  have "unat (rv + x) = unat rv + e" using assms(4,5) by (simp add: unat_word_ariths)
  moreover have "unat n div 2 ^ e < 2 ^ e" using assms(1) by (simp add: div_less_iff_less_mult mult_2 power_add)
  moreover have "0 < unat n div 2 ^ e" using True mask_test [OF assms(1-3)] by (simp add: div_greater_zero_iff)
  ultimately show ?thesis
    using True assms(4-6) by (simp add: log2Step_def unat_drop_bit power_add div_mult2_eq)
next
  case False
  then show ?thesis using mask_test [OF assms(1-3)] assms(5,6) by (simp add: log2Step_def)
qed

lemma fastLog2Floor_bounds:
  assumes "n \<noteq> 0"
  shows "2 ^ unat (fastLog2Floor n) \<le> unat n \<and> unat n < 2 ^ Suc (unat (fastLog2Floor n)) \<and> unat (fastLog2Floor n) < 32"
proof -
  have m: "0xffff0000 = push_bit 16 (mask 16 :: u32)" "0xff00 = push_bit 8 (mask 8 :: u32)"
    "0xf0 = push_bit 4 (mask 4 :: u32)" "0xc = push_bit 2 (mask 2 :: u32)" "0x2 = push_bit 1 (mask 1 :: u32)"
    by (simp_all add: mask_eq_exp_minus_1 push_bit_eq_mult)
  have pos: "0 < unat n" using assms by (simp add: unat_gt_0)
  obtain r1 n1 where s1: "log2Step (0, 16, n) 0xffff0000 = (r1, drop_bit 1 16, n1)" "unat n1 < 2 ^ 16" "unat r1 + 16 \<le> 32"
    "unat n div 2 ^ unat r1 = unat n1" "0 < unat n1"
    using log2Step_ok [of n 16 "0xffff0000" 16 0 n, OF _ _ m(1)] unat_less [of n] pos by auto
  obtain r2 n2 where s2: "log2Step (r1, 8, n1) 0xff00 = (r2, drop_bit 1 8, n2)" "unat n2 < 2 ^ 8" "unat r2 + 8 \<le> 32"
    "unat n div 2 ^ unat r2 = unat n2" "0 < unat n2"
    using log2Step_ok [of n1 8 "0xff00" 8 r1 n, OF _ _ m(2)] s1 by auto
  obtain r3 n3 where s3: "log2Step (r2, 4, n2) 0xf0 = (r3, drop_bit 1 4, n3)" "unat n3 < 2 ^ 4" "unat r3 + 4 \<le> 32"
    "unat n div 2 ^ unat r3 = unat n3" "0 < unat n3"
    using log2Step_ok [of n2 4 "0xf0" 4 r2 n, OF _ _ m(3)] s2 by auto
  obtain r4 n4 where s4: "log2Step (r3, 2, n3) 0xc = (r4, drop_bit 1 2, n4)" "unat n4 < 2 ^ 2" "unat r4 + 2 \<le> 32"
    "unat n div 2 ^ unat r4 = unat n4" "0 < unat n4"
    using log2Step_ok [of n3 2 "0xc" 2 r3 n, OF _ _ m(4)] s3 by auto
  obtain r5 n5 where s5: "log2Step (r4, 1, n4) 0x2 = (r5, drop_bit 1 1, n5)" "unat n5 < 2 ^ 1" "unat r5 + 1 \<le> 32"
    "unat n div 2 ^ unat r5 = unat n5" "0 < unat n5"
    using log2Step_ok [of n4 1 "0x2" 1 r4 n, OF _ _ m(5)] s4 by auto
  have d: "drop_bit 1 (16 :: byte) = 8" "drop_bit 1 (8 :: byte) = 4" "drop_bit 1 (4 :: byte) = 2" "drop_bit 1 (2 :: byte) = 1"
    by code_simp+
  have "fastLog2Floor n = r5"
    unfolding fastLog2Floor_def log2FloorMasks_def log2Step_def [symmetric] foldl_Cons foldl_Nil
      s1(1) d s2(1) s3(1) s4(1) s5(1) by simp
  moreover have "unat n div 2 ^ unat r5 = 1" using s5(2,4,5) by simp
  then have "2 ^ unat r5 \<le> unat n \<and> unat n < 2 * 2 ^ unat r5"
  proof -
    have "unat n = 1 * 2 ^ unat r5 + unat n mod 2 ^ unat r5"
      using div_mult_mod_eq [of "unat n" "2 ^ unat r5"] \<open>unat n div 2 ^ unat r5 = 1\<close> by simp
    moreover have "unat n mod 2 ^ unat r5 < 2 ^ unat r5" by simp
    ultimately show ?thesis by linarith
  qed
  ultimately show ?thesis using s5(3) by simp
qed

lemma locator_next:
  assumes "wf_node t" "height_of t < 2 ^ 31 - 1" "wf_node m" "0 \<le> h" "h \<le> height_of m"
  shows "(if contains (map Some (path t)) m then map Some (path t) ! nat h else Ancestor m h) = Some (path m ! nat h)"
proof (cases "m \<in> set (path t)")
  case True
  then have "nat (height_of m) < length (path t)" "path m = take (Suc (nat (height_of m))) (path t)"
    using path_member [OF assms(1)] by blast+
  moreover have "nat h \<le> nat (height_of m)" using assms(5) by simp
  ultimately show ?thesis using view_contains [OF assms(1-3)] True by simp
next
  case False
  then show ?thesis using view_contains [OF assms(1-3)] Ancestor_eq [OF assms(3)] assms(4,5) by simp
qed

text \<open>What the loop returns from the node at height \<open>x\<close> of a branch.\<close>

definition locates :: "blockNode \<Rightarrow> nat \<Rightarrow> hash list \<Rightarrow> hash list option \<Rightarrow> nat \<Rightarrow> bool" where
  "locates n x loc r k \<longleftrightarrow> (\<exists>mid. r = Some (loc @ hash_of (path n ! x) # mid) \<and>
     last (hash_of (path n ! x) # mid) = hash_of (path n ! 0) \<and> length mid \<le> k \<and> length mid \<le> x)"

lemma locates_step:
  assumes "locates n y (loc @ [hash_of (path n ! x)]) r k" and "y < x"
  shows "locates n x loc r (Suc k)"
proof -
  obtain mid where m: "r = Some (loc @ hash_of (path n ! x) # hash_of (path n ! y) # mid)"
    "last (hash_of (path n ! y) # mid) = hash_of (path n ! 0)" "length mid \<le> k" "length mid \<le> y"
    using assms(1) by (auto simp: locates_def)
  then show ?thesis
    using assms(2) unfolding locates_def by (intro exI [of _ "hash_of (path n ! y) # mid"]) simp
qed

lemma locates_mono: "locates n x loc r k \<Longrightarrow> k \<le> k' \<Longrightarrow> locates n x loc r k'"
  unfolding locates_def by (elim exE conjE, intro exI conjI; (assumption | simp))

lemma locatorLoop_unfold:
  assumes "wf_node t" "height_of t < 2 ^ 31 - 1" "wf_node n" "0 < x" "x < length (path n)"
    and "1 \<le> s" "int x + s \<le> 2 ^ 31"
  shows "locatorLoop (Suc fuel) (map Some (path t)) (Some (path n ! x)) s loc =
    locatorLoop fuel (map Some (path t)) (Some (path n ! (x - nat s)))
      (if length loc \<ge> 10 then int32 (s * 2) else s) (loc @ [hash_of (path n ! x)])"
proof -
  let ?m = "path n ! x" and ?h = "max (int32 (int x - s)) 0"
  have m: "wf_node ?m" "height_of ?m = int x" "path ?m = take (Suc x) (path n)"
    using path_nth [OF assms(3,5)] by blast+
  have "int32 (int x - s) = int x - s" using assms(6,7) by (intro int32_id) simp_all
  then have h: "0 \<le> ?h" "?h \<le> int x" "nat ?h = x - nat s" using assms(6) by simp_all
  have "path ?m ! nat ?h = path n ! (x - nat s)" using m(3) h(3) by simp
  moreover have "(if contains (map Some (path t)) ?m then map Some (path t) ! nat ?h else Ancestor ?m ?h) = Some (path ?m ! nat ?h)"
    using locator_next [OF assms(1,2) m(1) h(1)] h(2) m(2) by simp
  ultimately show ?thesis using m(2) assms(4) by (simp add: Let_def)
qed

lemma locatorLoop_genesis:
  "wf_node n \<Longrightarrow> locates n 0 loc (locatorLoop (Suc fuel) c (Some (path n ! 0)) s loc) 0"
  using path_nth [of n 0] length_path [of n] wf_node_height [of n] by (simp add: locates_def Let_def)

lemma locator_doubling:
  assumes "wf_node t" "height_of t < 2 ^ 31 - 1" "wf_node n" "x < length (path n)"
    and "10 \<le> length loc" "1 \<le> s" "int x + s \<le> 2 ^ 31" "int x \<le> s * (2 ^ j - 1)" "j < fuel"
  shows "locates n x loc (locatorLoop fuel (map Some (path t)) (Some (path n ! x)) s loc) j"
  using assms(4-)
proof (induction j arbitrary: x s loc fuel)
  case 0
  then obtain f where "fuel = Suc f" "x = 0" by (cases fuel) auto
  then show ?case using locatorLoop_genesis [OF assms(3)] by simp
next
  case (Suc j)
  then obtain f where f: "fuel = Suc f" "j < f" by (cases fuel) auto
  show ?case
  proof (cases "x = 0")
    case True
    show ?thesis unfolding True f(1) by (rule locates_mono [OF locatorLoop_genesis [OF assms(3)]]) simp
  next
    case x: False
    let ?l = "loc @ [hash_of (path n ! x)]" and ?y = "x - nat s"
    have e: "locatorLoop fuel (map Some (path t)) (Some (path n ! x)) s loc =
        locatorLoop f (map Some (path t)) (Some (path n ! ?y)) (int32 (s * 2)) ?l"
      using locatorLoop_unfold [OF assms(1-3) _ Suc.prems(1) Suc.prems(3,4), of f loc] x f(1) Suc.prems(2) by simp
    have "locates n ?y ?l (locatorLoop f (map Some (path t)) (Some (path n ! ?y)) (int32 (s * 2)) ?l) j"
    proof (cases "int x \<le> s")
      case True
      then have y: "?y = 0" by simp
      obtain f' where f': "f = Suc f'" using f(2) by (cases f) auto
      show ?thesis unfolding y f' by (rule locates_mono [OF locatorLoop_genesis [OF assms(3)]]) simp
    next
      case False
      then have s2: "int32 (s * 2) = s * 2" using Suc.prems(3,4) by (intro int32_id) simp_all
      have "int ?y = int x - s" using False Suc.prems(3) by simp
      moreover have "s * 2 * (2 ^ j - 1) = s * (2 ^ Suc j - 1) - s" by (simp add: algebra_simps)
      ultimately have "int ?y \<le> s * 2 * (2 ^ j - 1)" "int ?y + s * 2 \<le> 2 ^ 31" using Suc.prems(4,5) by linarith+
      then show ?thesis
        unfolding s2 using Suc.IH [of ?y ?l "s * 2" f] Suc.prems(1-3) f(2) by simp
    qed
    then show ?thesis unfolding e using locates_step x Suc.prems(3) by simp
  qed
qed

lemma locator_single:
  assumes "wf_node t" "height_of t < 2 ^ 31 - 1" "wf_node n" "x < length (path n)"
    and "length loc + d = 10" "int x < 2 ^ 31" "int x \<le> int d + (2 ^ j - 1)" "d + j < fuel"
  shows "locates n x loc (locatorLoop fuel (map Some (path t)) (Some (path n ! x)) 1 loc) (d + j)"
  using assms(4-)
proof (induction d arbitrary: x loc fuel)
  case 0
  then show ?case using locator_doubling [OF assms(1-3), of x loc 1 j fuel] by simp
next
  case (Suc d)
  then obtain f where f: "fuel = Suc f" "d + j < f" by (cases fuel) auto
  show ?case
  proof (cases "x = 0")
    case True
    show ?thesis unfolding True f(1) by (rule locates_mono [OF locatorLoop_genesis [OF assms(3)]]) simp
  next
    case False
    let ?l = "loc @ [hash_of (path n ! x)]"
    have "locates n (x - 1) ?l (locatorLoop f (map Some (path t)) (Some (path n ! (x - 1))) 1 ?l) (d + j)"
    proof (rule Suc.IH)
      show "int (x - 1) \<le> int d + (2 ^ j - 1)" using Suc.prems(4) False by simp
    qed (use Suc.prems f(2) in simp_all)
    moreover have "locatorLoop fuel (map Some (path t)) (Some (path n ! x)) 1 loc =
        locatorLoop f (map Some (path t)) (Some (path n ! (x - 1))) 1 ?l"
      using locatorLoop_unfold [OF assms(1-3) _ Suc.prems(1), of 1 f loc] False f(1) Suc.prems(2,3) by simp
    ultimately show ?thesis using locates_step [of n "x - 1" loc x] False by simp
  qed
qed

lemma blockLocator_ok:
  assumes "wf_node t" "height_of t < 2 ^ 31 - 1" "wf_node n"
  shows "\<exists>loc. blockLocator 45 (map Some (path t)) (Some n) = Some loc \<and> length loc \<le> unat (locatorMaxEntries n)
    \<and> hd loc = hash_of n \<and> last loc = hash_of (path n ! 0)"
proof -
  let ?x = "nat (height_of n)"
  have h: "0 \<le> height_of n" "height_of n < 2 ^ 31" "length (path n) = Suc ?x" "path n ! ?x = n"
    using wf_node_height [OF assms(3)] length_path [OF assms(3)] path_member(3) [OF assms(3) path_self]
    by (simp_all add: nat_add_distrib)
  have hx: "height_of n = int ?x" using h(1) by simp
  obtain j where j: "int ?x \<le> 10 + (2 ^ j - 1)" "j < 34" "?x \<le> 12 \<or> 11 + j \<le> unat (locatorMaxEntries n)"
    "?x \<le> 12 \<Longrightarrow> unat (locatorMaxEntries n) = Suc ?x"
  proof (cases "?x \<le> 12")
    case True
    then have "height_of n \<le> 12" by simp
    then have "locatorMaxEntries n = of_nat (Suc ?x)" using h(1) by (simp add: locatorMaxEntries_def)
    then have "unat (locatorMaxEntries n) = Suc ?x"
      using True by (simp only: unat_of_nat) simp
    moreover have "int ?x \<le> 10 + (2 ^ 2 - 1)" using True by (simp only: nat_le_iff) simp
    ultimately show ?thesis using True by (intro that [of 2]) (simp_all only:, simp_all)
  next
    case False
    let ?w = "word_of_int (height_of n) - 10 :: u32"
    define L where "L = unat (fastLog2Floor ?w)"
    have "?w = of_nat (?x - 10)" using False hx by (subst hx) (simp add: of_nat_diff)
    then have w: "unat ?w = ?x - 10" using h(2) hx by (simp only: unat_of_nat) simp
    then have "?w \<noteq> 0" using False by auto
    from fastLog2Floor_bounds [OF this] have b: "?x - 10 < 2 ^ Suc L" "L < 32" unfolding w L_def by blast+
    from b(1) have "int (?x - 10) < int (2 ^ Suc L)" by (simp only: of_nat_less_iff)
    then have "int ?x \<le> 10 + (2 ^ Suc L - 1)"
      using False unfolding of_nat_power of_nat_numeral by linarith
    moreover have "unat (locatorMaxEntries n) = 12 + L"
      using b(2) False hx unfolding L_def by (simp add: locatorMaxEntries_def unat_word_ariths)
    ultimately show ?thesis using b(2) False by (intro that [of "Suc L"]) simp_all
  qed
  have "locates n ?x [] (locatorLoop 45 (map Some (path t)) (Some n) 1 []) (10 + j)"
    using locator_single [OF assms, of ?x "[]" 10 j 45] h j by simp
  then obtain mid where m: "blockLocator 45 (map Some (path t)) (Some n) = Some (hash_of n # mid)"
    "last (hash_of n # mid) = hash_of (path n ! 0)" "length mid \<le> 10 + j" "length mid \<le> ?x"
    unfolding locates_def h(4) blockLocator_def option.case append_Nil by blast
  have "Suc (length mid) \<le> unat (locatorMaxEntries n)"
  proof (cases "?x \<le> 12")
    case True
    then show ?thesis using j(4) m(4) by simp
  next
    case False
    then show ?thesis using j(3) m(3) by linarith
  qed
  with m show ?thesis by (intro exI [of _ "hash_of n # mid"]) simp
qed

section \<open>Properties\<close>



text \<open>C27: The fork point is the last common block. For a view of the branch of \<open>t\<close> and any node \<open>n\<close>, the
  blocks up to the fork point are exactly the blocks the two branches share, and there is no fork
  point only when they share none.\<close>

theorem find_fork_last_common:
  assumes "made H t" and "height_of t < 2 ^ 31 - 1" and "made H n"
  shows "case findFork (map Some (path t)) (Some n) of
      None \<Rightarrow> set (path n) \<inter> set (path t) = {} | Some f \<Rightarrow> set (path f) = set (path n) \<inter> set (path t)"
  using findFork_ok [OF made_wf [OF assms(1)] assms(2) made_wf [OF assms(3)]] .

theorem find_fork_last_common_witness:
  "case findFork (map Some (path ex_node)) (Some ex_node) of
      None \<Rightarrow> set (path ex_node) \<inter> set (path ex_node) = {}
    | Some f \<Rightarrow> set (path f) = set (path ex_node) \<inter> set (path ex_node)"
proof (rule find_fork_last_common)
  show "made ex_header_hashers ex_node" "made ex_header_hashers ex_node"
    unfolding ex_node_def by (rule made.genesis)+
qed (simp add: ex_node_def newBlockNode_def Let_def)

text \<open>C28: A block locator fits the capacity it is made with. For every branch and every node, the loop
  ends, starts with the node, finishes with genesis, and adds at most as many hashes as the
  logarithmic estimate \<open>locatorMaxEntries\<close> announces; the doubling step never overflows.\<close>

theorem block_locator_fits:
  assumes "made H t" "height_of t < 2 ^ 31 - 1" "made H n"
  shows "\<exists>loc. blockLocator 45 (map Some (path t)) (Some n) = Some loc \<and> length loc \<le> unat (locatorMaxEntries n)
    \<and> hd loc = hash_of n \<and> last loc = hash_of (path n ! 0)"
  using blockLocator_ok [OF made_wf [OF assms(1)] assms(2) made_wf [OF assms(3)]] .

theorem block_locator_fits_witness:
  "\<exists>loc. blockLocator 45 (map Some (path ex_node)) (Some ex_node) = Some loc
    \<and> length loc \<le> unat (locatorMaxEntries ex_node) \<and> hd loc = hash_of ex_node \<and> last loc = hash_of (path ex_node ! 0)"
proof (rule block_locator_fits)
  show "made ex_header_hashers ex_node" "made ex_header_hashers ex_node"
    unfolding ex_node_def by (rule made.genesis)+
qed (simp add: ex_node_def newBlockNode_def Let_def)

end
