(* ===== verification/Tx_Validate.thy ===== *)
theory Tx_Validate
  imports Covenant_Rules Block_Node "HOL-Library.Signed_Division"
begin

text \<open>
  Context-free and input checks of transactions (src/blockchain/validate.go): sanity, lock times,
  the block subsidy and the coinbase height. Amounts are \<open>int64\<close> and their sums wrap around as the
  code's do, so that the checks for overflow are part of the model. The lemmas show what the
  accumulating loops compute when they accept: the exact sums, all within the money range.
\<close>

section \<open>Amounts\<close>

definition int64 :: "int \<Rightarrow> int" where
  "int64 x = sint (word_of_int x :: u64)"

definition DooPerHNS :: int where "DooPerHNS = 1000000"
definition MaxDoo :: int where "MaxDoo = 2040000000 * DooPerHNS"
definition baseSubsidy :: int where "baseSubsidy = 2000 * DooPerHNS"

definition MaxBlockWeight :: nat where "MaxBlockWeight = 4000000"
definition MaxBlockBaseSize :: nat where "MaxBlockBaseSize = 1000000"
definition MaxBlockSigOpsCost :: int where "MaxBlockSigOpsCost = 80000"
definition WitnessScaleFactor :: nat where "WitnessScaleFactor = 4"

definition GetTransactionWeight :: "Tx \<Rightarrow> int" where
  "GetTransactionWeight tx =
     (let msgTx = utx_msgTx tx; baseSize = MsgTx_baseSize msgTx; totalSize = MsgTx_SerializeSize msgTx in
      int (baseSize * (WitnessScaleFactor - 1) + totalSize))"

section \<open>Sanity\<close>

fun outputValueLoop :: "int \<Rightarrow> TxOut list \<Rightarrow> int result" where
  "outputValueLoop totalDoo [] = Inr totalDoo"
| "outputValueLoop totalDoo (txOut # outs) =
     (let doo = to_Value txOut in
      if doo < 0 then Inl (RuleError ''ErrBadTxOutValue'' ''transaction output has negative value'')
      else if doo > MaxDoo
      then Inl (RuleError ''ErrBadTxOutValue'' ''transaction output value is higher than max allowed value'')
      else
        let totalDoo = int64 (totalDoo + doo) in
        if totalDoo < 0
        then Inl (RuleError ''ErrBadTxOutValue'' ''total value of all transaction outputs exceeds max allowed value'')
        else if totalDoo > MaxDoo
        then Inl (RuleError ''ErrBadTxOutValue'' ''total value of all transaction outputs is higher than max allowed value'')
        else case Address_Encode (to_Address txOut) of
          Inl _ \<Rightarrow> Inl (RuleError ''ErrBadTxOutValue'' ''transaction output has invalid address'')
        | Inr _ \<Rightarrow>
            (case Covenant_Encode (to_Covenant txOut) of
               Inl _ \<Rightarrow> Inl (RuleError ''ErrBadTxOutValue'' ''transaction output has invalid covenant'')
             | Inr _ \<Rightarrow> outputValueLoop totalDoo outs))"

fun duplicateInputs :: "OutPoint set \<Rightarrow> TxIn list \<Rightarrow> bool" where
  "duplicateInputs existingTxOut [] = False"
| "duplicateInputs existingTxOut (txIn # ins) =
     (if ti_PreviousOutPoint txIn \<in> existingTxOut then True
      else duplicateInputs (insert (ti_PreviousOutPoint txIn) existingTxOut) ins)"

definition coinbaseWitnessSize :: "bytes list \<Rightarrow> nat" where
  "coinbaseWitnessSize witness =
     foldl (\<lambda>size item. size + VarIntSerializeSize (of_nat (length item)) + length item) 0 witness"

definition MaxCoinbaseWitnessSize :: nat where "MaxCoinbaseWitnessSize = 1000"

definition checkCoinbaseInput :: "TxOut list \<Rightarrow> nat \<Rightarrow> TxIn \<Rightarrow> unit result" where
  "checkCoinbaseInput outs i txIn =
     (if \<not> isNullOutpoint (ti_PreviousOutPoint txIn)
      then Inl (RuleError ''ErrBadTxInput'' ''coinbase input has non-null previous output'')
      else if i = 0 then Inr ()
      else if length (ti_Witness txIn) \<noteq> 1
      then Inl (RuleError ''ErrBadTxInput'' ''coinbase claim input must have one witness item'')
      else if length (ti_Witness txIn ! 0) > 10000
      then Inl (RuleError ''ErrBadCoinbaseScriptLen'' ''coinbase claim witness length is out of range'')
      else if i \<ge> length outs
      then Inl (RuleError ''ErrInvalidCovenant'' ''coinbase claim input is missing linked output'')
      else if cov_Type (to_Covenant (outs ! i)) = CovenantClaim
            \<or> cov_Type (to_Covenant (outs ! i)) = CovenantNone then Inr ()
      else Inl (RuleError ''ErrInvalidCovenant'' ''coinbase claim input is linked to invalid covenant''))"

definition CheckTransactionSanity :: "hashers \<Rightarrow> proof_env \<Rightarrow> Tx \<Rightarrow> unit result" where
  "CheckTransactionSanity H pe tx =
     (let msgTx = utx_msgTx tx; ins = tx_TxIn msgTx; outs = tx_TxOut msgTx in
      if length ins = 0 then Inl (RuleError ''ErrNoTxInputs'' ''transaction has no inputs'')
      else if length outs = 0 then Inl (RuleError ''ErrNoTxOutputs'' ''transaction has no outputs'')
      else if MsgTx_baseSize msgTx > MaxBlockBaseSize
      then Inl (RuleError ''ErrTxTooBig'' ''serialized transaction is too big'')
      else
        rbind (outputValueLoop 0 outs) (\<lambda>_.
        rbind (checkCovenantSanity H pe tx) (\<lambda>_.
          if \<not> IsCoinBase tx \<and> duplicateInputs {} ins
          then Inl (RuleError ''ErrDuplicateTxInputs'' ''transaction contains duplicate inputs'')
          else if IsCoinBase tx then
            rbind (for_each (checkCoinbaseInput outs) 0 ins) (\<lambda>_.
              if coinbaseWitnessSize (ti_Witness (ins ! 0)) > MaxCoinbaseWitnessSize
              then Inl (RuleError ''ErrBadCoinbaseScriptLen'' ''coinbase transaction witness size exceeds max'')
              else Inr ())
          else if list_ex (\<lambda>txIn. isNullOutpoint (ti_PreviousOutPoint txIn)) ins
          then Inl (RuleError ''ErrBadTxInput'' ''transaction input refers to previous output that is null'')
          else Inr ())))"

section \<open>Lock times and heights\<close>

definition LockTimeFlag :: u32 where "LockTimeFlag = push_bit 31 1"
definition LockTimeMask :: u32 where "LockTimeMask = LockTimeFlag - 1"
definition LockTimeMultiplier :: int where "LockTimeMultiplier = 2 ^ 9"

definition IsFinalizedTransaction :: "Tx \<Rightarrow> int \<Rightarrow> int \<Rightarrow> bool" where
  "IsFinalizedTransaction tx blockHeight blockTime =
     (let msgTx = utx_msgTx tx; lockTime = tx_LockTime msgTx in
      if IsCoinBaseTx msgTx then True
      else if lockTime = 0 then True
      else
        let value = uint (lockTime AND LockTimeMask);
            (lockTimeValue, blockTimeOrHeight) =
              (if lockTime AND LockTimeFlag \<noteq> 0 then (value * LockTimeMultiplier, blockTime)
               else (value, blockHeight)) in
        if lockTimeValue < blockTimeOrHeight then True
        else list_all (\<lambda>txIn. ti_Sequence txIn = 0xffffffff) (tx_TxIn msgTx))"

record SequenceLock =
  sl_Seconds :: int
  sl_BlockHeight :: int

definition SequenceLockActive :: "SequenceLock \<Rightarrow> int \<Rightarrow> int \<Rightarrow> bool" where
  "SequenceLockActive sequenceLock blockHeight medianTimePast \<longleftrightarrow>
     \<not> (sl_Seconds sequenceLock \<ge> medianTimePast \<or> sl_BlockHeight sequenceLock \<ge> blockHeight)"

definition CoinbaseBlockHeight :: "Tx \<Rightarrow> int result" where
  "CoinbaseBlockHeight coinbaseTx =
     (let lockTime = tx_LockTime (utx_msgTx coinbaseTx) in
      if uint lockTime > 2 ^ 31 - 1
      then Inl (RuleError ''ErrBadCoinbaseHeight'' ''the coinbase transaction locktime exceeds max block height'')
      else Inr (uint lockTime))"

definition CheckCoinbaseHeight :: "Tx \<Rightarrow> int \<Rightarrow> unit result" where
  "CheckCoinbaseHeight coinbaseTx wantHeight =
     rbind (CoinbaseBlockHeight coinbaseTx) (\<lambda>coinbaseHeight.
       if coinbaseHeight \<noteq> wantHeight
       then Inl (RuleError ''ErrBadCoinbaseHeight'' ''the coinbase transaction locktime height is not the expected one'')
       else Inr ())"

text \<open>The parameters of the money supply.\<close>

record supplyParams =
  SubsidyReductionInterval :: int
  CoinbaseMaturity :: u16
  TxStart :: u32

definition mainSupply :: supplyParams where
  "mainSupply = \<lparr>SubsidyReductionInterval = 170000, CoinbaseMaturity = 100, TxStart = 2016\<rparr>"

definition CalcBlockSubsidy :: "int \<Rightarrow> supplyParams \<Rightarrow> int" where
  "CalcBlockSubsidy height params =
     (if SubsidyReductionInterval params = 0 then baseSubsidy
      else
        let halvings = height sdiv SubsidyReductionInterval params in
        if halvings < 0 then 0 else drop_bit (nat halvings) baseSubsidy)"

section \<open>What sanity guarantees\<close>

lemma int64_id: "is_int64 x \<Longrightarrow> int64 x = x"
  unfolding int64_def by (rule sint_word_of_int_int64)

lemma outputValueLoop_ok:
  "outputValueLoop t outs = Inr s \<Longrightarrow> 0 \<le> t \<Longrightarrow> t \<le> MaxDoo \<Longrightarrow>
     s = t + sum_list (map to_Value outs) \<and> s \<le> MaxDoo \<and> (\<forall>out\<in>set outs. 0 \<le> to_Value out \<and> to_Value out \<le> MaxDoo)"
proof (induction outs arbitrary: t)
  case (Cons out outs)
  then have v: "0 \<le> to_Value out" "to_Value out \<le> MaxDoo" by (auto simp: Let_def split: if_split_asm)
  have "is_int64 (t + to_Value out)"
    using Cons.prems(2,3) v by (simp add: is_int64_def MaxDoo_def DooPerHNS_def)
  then have i: "int64 (t + to_Value out) = t + to_Value out" by (rule int64_id)
  then have t: "t + to_Value out \<le> MaxDoo" "outputValueLoop (t + to_Value out) outs = Inr s"
    using Cons.prems(1) by (auto simp: Let_def split: if_split_asm sum.splits)
  then show ?case using Cons.IH [OF t(2)] Cons.prems(2) v by auto
qed simp

lemma duplicateInputs_iff:
  "duplicateInputs S ins \<longleftrightarrow> \<not> distinct (map ti_PreviousOutPoint ins) \<or> S \<inter> ti_PreviousOutPoint ` set ins \<noteq> {}"
  by (induction S ins rule: duplicateInputs.induct) auto

lemma sane_tx:
  assumes "CheckTransactionSanity H pe tx = Inr u"
  shows "tx_TxIn (utx_msgTx tx) \<noteq> []" "tx_TxOut (utx_msgTx tx) \<noteq> []"
    "\<forall>out\<in>set (tx_TxOut (utx_msgTx tx)). 0 \<le> to_Value out"
    "sum_list (map to_Value (tx_TxOut (utx_msgTx tx))) \<le> MaxDoo"
    "\<not> IsCoinBase tx \<Longrightarrow> distinct (map ti_PreviousOutPoint (tx_TxIn (utx_msgTx tx)))"
proof -
  from assms have i: "tx_TxIn (utx_msgTx tx) \<noteq> []" and o': "tx_TxOut (utx_msgTx tx) \<noteq> []"
    and d: "\<not> (\<not> IsCoinBase tx \<and> duplicateInputs {} (tx_TxIn (utx_msgTx tx)))"
    by (auto simp: CheckTransactionSanity_def Let_def rbind_eq_Inr split: if_split_asm)
  obtain s where s: "outputValueLoop 0 (tx_TxOut (utx_msgTx tx)) = Inr s"
    using assms by (auto simp: CheckTransactionSanity_def Let_def rbind_eq_Inr split: if_split_asm)
  have "0 \<le> MaxDoo" by (simp add: MaxDoo_def DooPerHNS_def)
  from outputValueLoop_ok [OF s _ this] show "\<forall>out\<in>set (tx_TxOut (utx_msgTx tx)). 0 \<le> to_Value out"
    "sum_list (map to_Value (tx_TxOut (utx_msgTx tx))) \<le> MaxDoo" by auto
  show "tx_TxIn (utx_msgTx tx) \<noteq> []" "tx_TxOut (utx_msgTx tx) \<noteq> []" by fact+
  show "distinct (map ti_PreviousOutPoint (tx_TxIn (utx_msgTx tx)))" if "\<not> IsCoinBase tx"
    using d that by (simp add: duplicateInputs_iff)
qed

section \<open>The money supply\<close>

lemma CalcBlockSubsidy_eq: "0 \<le> height \<Longrightarrow> 0 < SubsidyReductionInterval p \<Longrightarrow>
    CalcBlockSubsidy height p = baseSubsidy div 2 ^ nat (height div SubsidyReductionInterval p)"
  by (cases "height = 0")
    (auto simp: CalcBlockSubsidy_def drop_bit_eq_div signed_divide_int_def Let_def not_less
      dest: pos_imp_zdiv_neg_iff [THEN iffD1])

lemma baseSubsidy_div_bounds: "0 \<le> baseSubsidy div 2 ^ k \<and> baseSubsidy div 2 ^ k * 2 ^ k \<le> baseSubsidy"
  by (simp add: baseSubsidy_def DooPerHNS_def pos_imp_zdiv_nonneg_iff minus_mod_eq_div_mult [symmetric])

lemma CalcBlockSubsidy_bounds:
  assumes "0 \<le> height" and "0 < SubsidyReductionInterval p"
  shows "0 \<le> CalcBlockSubsidy height p" and "CalcBlockSubsidy height p \<le> baseSubsidy"
proof -
  show "0 \<le> CalcBlockSubsidy height p"
    using assms baseSubsidy_div_bounds by (simp add: CalcBlockSubsidy_eq)
  have "baseSubsidy div 2 ^ k \<le> baseSubsidy" for k :: nat
    by (rule order_trans [OF zdiv_mono2 [of _ 1]]) (simp_all add: baseSubsidy_def DooPerHNS_def)
  then show "CalcBlockSubsidy height p \<le> baseSubsidy" using assms by (simp add: CalcBlockSubsidy_eq)
qed

lemma subsidy_period:
  fixes N k :: nat
  assumes "0 < N" and "SubsidyReductionInterval p = int N"
  shows "(\<Sum>h = k * N..<Suc k * N. CalcBlockSubsidy (int h) p) = int N * (baseSubsidy div 2 ^ k)"
proof -
  have "CalcBlockSubsidy (int h) p = baseSubsidy div 2 ^ k" if "h \<in> {k * N..<Suc k * N}" for h
  proof -
    have "h div N = k" using that assms(1) by (intro div_nat_eqI) (simp_all add: mult.commute)
    then have "nat (int h div int N) = k" by (simp flip: zdiv_int)
    then show ?thesis using assms by (simp add: CalcBlockSubsidy_eq)
  qed
  then have "(\<Sum>h = k * N..<Suc k * N. CalcBlockSubsidy (int h) p) = (\<Sum>h = k * N..<Suc k * N. baseSubsidy div 2 ^ k)"
    by (intro sum.cong) simp_all
  then show ?thesis by simp
qed

lemma geometric_subsidy: "(\<Sum>j<k. baseSubsidy div 2 ^ j) + 2 * (baseSubsidy div 2 ^ k) \<le> 2 * baseSubsidy"
proof (induction k)
  case (Suc k)
  have "2 * (baseSubsidy div 2 ^ Suc k) \<le> baseSubsidy div 2 ^ k"
    by (simp add: mult.commute [of 2 "2 ^ k"] zdiv_zmult2_eq minus_mod_eq_mult_div [symmetric])
  then show ?case using Suc by simp
qed (simp add: baseSubsidy_def DooPerHNS_def)

lemma subsidy_periods:
  fixes N k :: nat
  assumes "0 < N" and "SubsidyReductionInterval p = int N"
  shows "(\<Sum>h<k * N. CalcBlockSubsidy (int h) p) = int N * (\<Sum>j<k. baseSubsidy div 2 ^ j)"
proof (induction k)
  case (Suc k)
  have "(\<Sum>h<Suc k * N. CalcBlockSubsidy (int h) p)
      = (\<Sum>h<k * N. CalcBlockSubsidy (int h) p) + (\<Sum>h = k * N..<Suc k * N. CalcBlockSubsidy (int h) p)"
    by (simp add: lessThan_atLeast0 sum.atLeastLessThan_concat)
  then show ?case using Suc subsidy_period [OF assms, of k] by (simp add: distrib_left)
qed simp

text \<open>C32: However long the chain grows, the subsidies of all its blocks together never exceed twice
  the base subsidy times the halving interval; with the main network's interval that is 680 million
  HNS, a third of the maximum supply (the rest is the genesis-allocated airdrop and name claims).\<close>
theorem total_subsidy_bounded:
  assumes "0 < SubsidyReductionInterval p"
  shows "(\<Sum>h<n. CalcBlockSubsidy (int h) p) \<le> 2 * baseSubsidy * SubsidyReductionInterval p"
proof -
  define N where "N = nat (SubsidyReductionInterval p)"
  have N: "0 < N" "SubsidyReductionInterval p = int N" using assms by (simp_all add: N_def)
  have "(\<Sum>h<n. CalcBlockSubsidy (int h) p) \<le> (\<Sum>h<n * N. CalcBlockSubsidy (int h) p)"
    using N assms CalcBlockSubsidy_bounds(1) by (intro sum_mono2) auto
  also have "\<dots> = int N * (\<Sum>j<n. baseSubsidy div 2 ^ j)" by (rule subsidy_periods [OF N])
  also have "\<dots> \<le> int N * (2 * baseSubsidy)"
    using geometric_subsidy [of n] baseSubsidy_div_bounds [of n] by (intro mult_left_mono) auto
  finally show ?thesis using N by (simp add: mult.commute)
qed

theorem total_subsidy_bounded_witness:
  "(\<forall>n. (\<Sum>h<n. CalcBlockSubsidy (int h) mainSupply) \<le> 680000000 * DooPerHNS) \<and>
    3 * (680000000 * DooPerHNS) = MaxDoo"
  using total_subsidy_bounded [of mainSupply] by (simp_all add: mainSupply_def baseSubsidy_def MaxDoo_def DooPerHNS_def)

end
