(* ===== verification/Spec2Isabelle.thy ===== *)
theory Spec2Isabelle
  imports Auction Urkel_Codec Urkel_Root Difficulty Chain_View Tx_Validate
begin

text \<open>Handshake node.\<close>

end
